theory Spec2Isabelle
  imports Complex_Main "HOL-Library.Log_Nat" "HOL-Library.Sublist"
begin

section \<open>Data model\<close>

text \<open>
  The types of \<^verbatim>\<open>types/calculator.ts\<close>. A JavaScript string is a sequence of code
  units; it is modelled by \<^typ>\<open>string\<close>, one \<^typ>\<open>char\<close> per code unit. The operator
  glyphs U+00D7 and U+00F7 are the characters \<open>0xD7\<close> and \<open>0xF7\<close>. Four glyphs of the
  program lie above \<open>0xFF\<close> and do not fit a \<^typ>\<open>char\<close>; each is one code unit in
  JavaScript and is given one stand-in character here, so that lengths and
  positions are those of the program.
\<close>

definition ELLIPSIS :: char where
  \<comment> \<open>stand-in for U+2026, appended by \<^verbatim>\<open>formatForDisplay\<close>\<close>
  "ELLIPSIS = CHR 0x85"

definition UNDO_ARROW :: char where
  \<comment> \<open>stand-in for U+21B6, the undo key named in the divide-by-zero message\<close>
  "UNDO_ARROW = CHR 0x86"

definition UNDO_GLYPH :: char where
  \<comment> \<open>stand-in for U+27F2, which starts the undo feedback message\<close>
  "UNDO_GLYPH = CHR 0x87"

definition REDO_GLYPH :: char where
  \<comment> \<open>stand-in for U+27F3, which starts the redo feedback message\<close>
  "REDO_GLYPH = CHR 0x88"

datatype CalculatorMode = Checkbook | Scientific

datatype Operation = Add | Subtract | Multiply | Divide

text \<open>The operator as the string the source stores: \<^verbatim>\<open>'+' | '-' | U+00D7 | U+00F7\<close>.\<close>

fun opSymbol :: "Operation \<Rightarrow> string" where
  "opSymbol Add = ''+''"
| "opSymbol Subtract = ''-''"
| "opSymbol Multiply = [CHR 0xD7]"
| "opSymbol Divide = [CHR 0xF7]"

text \<open>
  \<^verbatim>\<open>number | null\<close> and \<^verbatim>\<open>Operation | null\<close> are options. A number is a rational:
  the value of a finite double (see the section on numbers).
\<close>

record CalculatorState =
  display :: string
  expression :: string
  previousValue :: "rat option"
  operation :: "Operation option"
  waitingForOperand :: bool
  error :: bool
  errorMessage :: string

definition INITIAL_STATE :: CalculatorState where
  "INITIAL_STATE = \<lparr> display = ''0'', expression = '''', previousValue = None,
     operation = None, waitingForOperand = False, error = False, errorMessage = '''' \<rparr>"

section \<open>Numbers\<close>

text \<open>
  A JavaScript number is an IEEE-754 double. The model keeps the value of a finite
  double as a rational and rounds the exact result of every inexact operation to the
  nearest double, ties to the even significand (\<open>fl\<close>), as the platform does. The
  exponent is not bounded: overflow to \<^verbatim>\<open>Infinity\<close>, gradual underflow and \<^verbatim>\<open>NaN\<close> are
  outside the model, and \<open>-0\<close> is \<open>0\<close> (the program never divides by a zero and
  prints both zeros alike). A decimal literal of the source denotes \<open>fl\<close> of its value.
\<close>

text \<open>\<open>ilog2 x\<close> is \<open>\<lfloor>log\<^sub>2 x\<rfloor>\<close> for \<open>x > 0\<close>, found from the bit lengths.\<close>

definition ilog2 :: "rat \<Rightarrow> int" where
  "ilog2 x = (let (p, q) = quotient_of x; k = bitlen p - bitlen q
              in if 2 powi k \<le> x then k else k - 1)"

definition roundHalfEven :: "rat \<Rightarrow> int" where
  "roundHalfEven x =
     (let f = \<lfloor>x\<rfloor>; d = x - of_int f
      in if d < 1/2 then f else if d > 1/2 then f + 1 else if even f then f else f + 1)"

text \<open>Rounding to 53 significant bits.\<close>

definition fl :: "rat \<Rightarrow> rat" where
  "fl x = (if x = 0 then 0
           else let e = ilog2 \<bar>x\<bar> - 52; m = roundHalfEven (\<bar>x\<bar> / 2 powi e)
                in sgn x * of_int m * 2 powi e)"

definition js_add :: "rat \<Rightarrow> rat \<Rightarrow> rat" where
  "js_add a b = fl (a + b)"

definition js_sub :: "rat \<Rightarrow> rat \<Rightarrow> rat" where
  "js_sub a b = fl (a - b)"

definition js_mul :: "rat \<Rightarrow> rat \<Rightarrow> rat" where
  "js_mul a b = fl (a * b)"

text \<open>
  The program divides only by the scale factor of \<^verbatim>\<open>roundToMode\<close> and, in \<^verbatim>\<open>calculate\<close>,
  by a second operand that it has found different from zero.
\<close>

definition js_div :: "rat \<Rightarrow> rat \<Rightarrow> rat" where
  "js_div a b = fl (a / b)"

text \<open>
  \<^verbatim>\<open>Math.round\<close>: the nearest integer, a tie going to the larger one (towards
  \<open>+\<infinity>\<close>). The result is exact.
\<close>

definition Math_round :: "rat \<Rightarrow> rat" where
  "Math_round x = of_int \<lfloor>x + 1/2\<rfloor>"

subsection \<open>Numbers and strings\<close>

definition digitChar :: "int \<Rightarrow> char" where
  "digitChar d = char_of (of_char CHR ''0'' + d)"

function intToString :: "int \<Rightarrow> string" where
  "intToString n =
     (if n < 10 then [digitChar n] else intToString (n div 10) @ [digitChar (n mod 10)])"
  by pat_completeness auto
termination
  by (relation "measure nat") auto

declare intToString.simps [simp del]

definition isDigit :: "char \<Rightarrow> bool" where
  "isDigit c = (c \<in> set ''0123456789'')"

definition digitsValue :: "string \<Rightarrow> int" where
  "digitsValue ds = foldl (\<lambda>acc c. 10 * acc + (of_char c - of_char CHR ''0'')) 0 ds"

definition isWhiteSpace :: "char \<Rightarrow> bool" where
  "isWhiteSpace c =
     (c \<in> set [CHR 0x09, CHR 0x0A, CHR 0x0B, CHR 0x0C, CHR 0x0D, CHR 0x20, CHR 0xA0])"

definition signOf :: "string \<Rightarrow> bool \<times> string" where
  "signOf s = (case s of
                 [] \<Rightarrow> (False, [])
               | c # r \<Rightarrow> if c = CHR ''-'' then (True, r)
                          else if c = CHR ''+'' then (False, r) else (False, s))"

definition exponentPart :: "string \<Rightarrow> int" where
  "exponentPart s =
     (case s of
        [] \<Rightarrow> 0
      | c # r \<Rightarrow>
          if c = CHR ''e'' \<or> c = CHR ''E''
          then (let (neg, r') = signOf r; ds = takeWhile isDigit r'
                in if ds = [] then 0 else if neg then - digitsValue ds else digitsValue ds)
          else 0)"

text \<open>
  \<^verbatim>\<open>parseFloat\<close>: leading white space is skipped and the longest prefix that is a
  decimal literal (sign, digits, fraction, exponent) is read; \<open>None\<close> is \<^verbatim>\<open>NaN\<close>. The
  literal \<^verbatim>\<open>Infinity\<close> denotes no finite double and is not read by the model; no key
  of the calculator types it.
\<close>

definition parseFloat :: "string \<Rightarrow> rat option" where
  "parseFloat s =
     (let (neg, s2) = signOf (dropWhile isWhiteSpace s);
          ip = takeWhile isDigit s2;
          r1 = dropWhile isDigit s2;
          (fp, r2) = (case r1 of
                        [] \<Rightarrow> ([], [])
                      | c # r \<Rightarrow> if c = CHR ''.''
                                 then (takeWhile isDigit r, dropWhile isDigit r)
                                 else ([], r1))
      in if ip = [] \<and> fp = [] then None
         else let v = of_int (digitsValue (ip @ fp)) * 10 powi (exponentPart r2 - int (length fp))
              in Some (fl (if neg then - v else v)))"

text \<open>
  \<^verbatim>\<open>Number.prototype.toString\<close>: the shortest digit string that reads back as the
  same double, at most 17 digits, in positional notation for exponents from \<open>-6\<close> to
  21 and in exponent notation otherwise.
\<close>

fun firstScale :: "nat \<Rightarrow> rat \<Rightarrow> nat \<Rightarrow> nat" where
  "firstScale 0 x j = j"
| "firstScale (Suc fuel) x j = (if x * 10 ^ j \<ge> 1 then j else firstScale fuel x (Suc j))"

text \<open>\<open>decExponent x\<close> is the \<open>n\<close> with \<open>10\<^sup>n\<^sup>-\<^sup>1 \<le> x < 10\<^sup>n\<close>, for \<open>x > 0\<close>.\<close>

definition decExponent :: "rat \<Rightarrow> int" where
  "decExponent x =
     (if x \<ge> 1 then int (length (intToString \<lfloor>x\<rfloor>))
      else 1 - int (firstScale (length (intToString (snd (quotient_of x)))) x 1))"

fun shortest :: "nat \<Rightarrow> rat \<Rightarrow> int \<Rightarrow> nat \<Rightarrow> int \<times> nat" where
  "shortest 0 x n k = (roundHalfEven (x / 10 powi (n - int k)), k)"
| "shortest (Suc fuel) x n k =
     (let scale = 10 powi (n - int k);
          s1 = roundHalfEven (x / scale);
          lo = \<lfloor>x / scale\<rfloor>;
          s2 = (if s1 = lo then lo + 1 else lo)
      in if fl (of_int s1 * scale) = x then (s1, k)
         else if fl (of_int s2 * scale) = x then (s2, k)
         else shortest fuel x n (Suc k))"

definition posToString :: "rat \<Rightarrow> string" where
  "posToString x =
     (let n0 = decExponent x;
          (s0, k0) = shortest 16 x n0 1;
          (s, k, n) = (if s0 = 10 ^ k0 then (1, 1, n0 + 1) else (s0, k0, n0));
          ds = intToString s
      in if int k \<le> n \<and> n \<le> 21 then ds @ replicate (nat (n - int k)) CHR ''0''
         else if 0 < n \<and> n \<le> 21 then take (nat n) ds @ ''.'' @ drop (nat n) ds
         else if -6 < n \<and> n \<le> 0 then ''0.'' @ replicate (nat (- n)) CHR ''0'' @ ds
         else let e = n - 1;
                  es = (if e < 0 then ''-'' else ''+'') @ intToString \<bar>e\<bar>
              in if k = 1 then ds @ ''e'' @ es
                 else take 1 ds @ ''.'' @ drop 1 ds @ ''e'' @ es)"

definition numToString :: "rat \<Rightarrow> string" where
  "numToString x =
     (if x = 0 then ''0'' else if x < 0 then ''-'' @ posToString (- x) else posToString x)"

text \<open>
  \<^verbatim>\<open>Number.prototype.toFixed\<close>: the exact value of the double scaled by \<open>10\<^sup>f\<close> and
  rounded to the nearest integer, the larger one on a tie; the sign is that of the
  number, also when the digits are all zero.
\<close>

definition toFixedDigits :: "rat \<Rightarrow> nat \<Rightarrow> string" where
  "toFixedDigits x f =
     (let n = \<lfloor>x * 10 ^ f + 1/2\<rfloor>;
          m = intToString n;
          m2 = (if length m \<le> f then replicate (f + 1 - length m) CHR ''0'' @ m else m)
      in if f = 0 then m
         else take (length m2 - f) m2 @ ''.'' @ drop (length m2 - f) m2)"

definition toFixed :: "rat \<Rightarrow> nat \<Rightarrow> string" where
  "toFixed x f =
     (if \<bar>x\<bar> \<ge> 10 ^ 21 then numToString x
      else (if x < 0 then ''-'' else '''') @ toFixedDigits \<bar>x\<bar> f)"

text \<open>\<^verbatim>\<open>String.prototype.includes\<close>.\<close>

fun str_includes :: "string \<Rightarrow> string \<Rightarrow> bool" where
  "str_includes sub [] = (sub = [])"
| "str_includes sub (c # cs) = (prefix sub (c # cs) \<or> str_includes sub cs)"

section \<open>Calculation engine (\<^verbatim>\<open>utils/calculator.ts\<close>)\<close>

definition MAX_DISPLAY_LENGTH :: nat where
  "MAX_DISPLAY_LENGTH = 15"

definition DECIMAL_PLACES_CHECKBOOK :: nat where
  "DECIMAL_PLACES_CHECKBOOK = 2"

definition DECIMAL_PLACES_SCIENTIFIC :: nat where
  "DECIMAL_PLACES_SCIENTIFIC = 8"

text \<open>The literal \<^verbatim>\<open>999999999.99\<close> of \<^verbatim>\<open>calculate\<close> and of the digit handler.\<close>

definition MAX_VALUE :: rat where
  "MAX_VALUE = fl (99999999999 / 100)"

text \<open>The object \<^verbatim>\<open>{ result, error, errorMessage }\<close> that \<^verbatim>\<open>calculate\<close> returns.\<close>

record Calculation =
  result :: rat
  calcError :: bool
  calcErrorMessage :: string

definition DIVIDE_BY_ZERO_MESSAGE :: string where
  "DIVIDE_BY_ZERO_MESSAGE =
     ''Cannot divide by zero. This would create an infinite number. Press C to start fresh or ''
     @ [UNDO_ARROW] @ '' to undo.''"

definition TOO_LARGE_MESSAGE :: string where
  "TOO_LARGE_MESSAGE =
     ''This number is too large to display. The maximum is 999,999,999.99. Press C to start over.''"

text \<open>
  The local \<^verbatim>\<open>decimalPlaces\<close> of \<^verbatim>\<open>roundToMode\<close> and \<^verbatim>\<open>formatForDisplay\<close>:
  \<^verbatim>\<open>mode === 'checkbook' ? DECIMAL_PLACES_CHECKBOOK : DECIMAL_PLACES_SCIENTIFIC\<close>.
\<close>

definition decimalPlaces :: "CalculatorMode \<Rightarrow> nat" where
  "decimalPlaces mode =
     (if mode = Checkbook then DECIMAL_PLACES_CHECKBOOK else DECIMAL_PLACES_SCIENTIFIC)"

definition roundToMode :: "rat \<Rightarrow> CalculatorMode \<Rightarrow> rat" where
  "roundToMode v mode =
     (let factor = 10 ^ decimalPlaces mode
      in js_div (Math_round (js_mul v factor)) factor)"

text \<open>
  The \<^verbatim>\<open>switch\<close> of \<^verbatim>\<open>calculate\<close>: \<open>Inl\<close> is the early return of the division by
  zero, \<open>Inr\<close> the raw result.
\<close>

definition switchOperation :: "Operation \<Rightarrow> rat \<Rightarrow> rat \<Rightarrow> Calculation + rat" where
  "switchOperation op firstValue secondValue =
     (case op of
        Add \<Rightarrow> Inr (js_add firstValue secondValue)
      | Subtract \<Rightarrow> Inr (js_sub firstValue secondValue)
      | Multiply \<Rightarrow> Inr (js_mul firstValue secondValue)
      | Divide \<Rightarrow>
          if secondValue = 0
          then Inl \<lparr> result = 0, calcError = True, calcErrorMessage = DIVIDE_BY_ZERO_MESSAGE \<rparr>
          else Inr (js_div firstValue secondValue))"

text \<open>
  No operation of the \<^verbatim>\<open>try\<close> block throws, so the \<^verbatim>\<open>catch\<close> branch has no
  counterpart; the \<^verbatim>\<open>default\<close> case of the \<^verbatim>\<open>switch\<close> is excluded by the type.
\<close>

definition calculate :: "rat \<Rightarrow> Operation option \<Rightarrow> rat \<Rightarrow> CalculatorMode \<Rightarrow> Calculation" where
  "calculate firstValue oper secondValue mode =
     (case oper of
        None \<Rightarrow> \<lparr> result = 0, calcError = False, calcErrorMessage = '''' \<rparr>
      | Some op \<Rightarrow>
          (case switchOperation op firstValue secondValue of
             Inl early \<Rightarrow> early
           | Inr raw \<Rightarrow>
               let rounded = roundToMode raw mode
               in if \<bar>rounded\<bar> > MAX_VALUE
                  then \<lparr> result = 0, calcError = True, calcErrorMessage = TOO_LARGE_MESSAGE \<rparr>
                  else \<lparr> result = rounded, calcError = False, calcErrorMessage = '''' \<rparr>))"

text \<open>\<^verbatim>\<open>formatForDisplay(value: string | number, mode, currencySymbol = '')\<close>.\<close>

definition formatForDisplay :: "string + rat \<Rightarrow> CalculatorMode \<Rightarrow> string \<Rightarrow> string" where
  "formatForDisplay v mode currencySymbol =
     (let str = (case v of
                   Inr num \<Rightarrow> toFixed num (decimalPlaces mode)
                 | Inl s \<Rightarrow> s);
          shown = (if length str > MAX_DISPLAY_LENGTH
                   then take MAX_DISPLAY_LENGTH str @ [ELLIPSIS] else str)
      in if currencySymbol \<noteq> '''' \<and> mode = Checkbook then currencySymbol @ shown else shown)"

definition getDisplayValue :: "string \<Rightarrow> rat" where
  "getDisplayValue displayStr =
     (if displayStr = '''' \<or> displayStr = ''-'' then 0
      else case parseFloat displayStr of None \<Rightarrow> 0 | Some num \<Rightarrow> num)"

section \<open>The rounding rule in the words of the specification\<close>

text \<open>
  The specification describes \<^verbatim>\<open>roundToMode\<close> as: scale by \<open>10\<^sup>d\<close> (\<open>d = 2\<close> for
  Checkbook, 8 for Scientific), round to the nearest integer with ties away from zero,
  divide back. These definitions follow those words, with the arithmetic of the
  program; they are compared with \<open>roundToMode\<close> below.
\<close>

definition roundHalfAwayFromZero :: "rat \<Rightarrow> rat" where
  "roundHalfAwayFromZero y = sgn y * of_int \<lfloor>\<bar>y\<bar> + 1 / 2\<rfloor>"

fun spec_decimals :: "CalculatorMode \<Rightarrow> nat" where
  "spec_decimals Checkbook = 2"
| "spec_decimals Scientific = 8"

definition spec_roundToMode :: "rat \<Rightarrow> CalculatorMode \<Rightarrow> rat" where
  "spec_roundToMode x mode =
     js_div (roundHalfAwayFromZero (js_mul x (10 ^ spec_decimals mode))) (10 ^ spec_decimals mode)"

section \<open>Session state machine\<close>

subsection \<open>The handlers of the calculator screen\<close>

definition INITIAL_CALCULATOR_STATE :: CalculatorState where
  "INITIAL_CALCULATOR_STATE = \<lparr> display = ''0'', expression = '''', previousValue = None,
     operation = None, waitingForOperand = False, error = False, errorMessage = '''' \<rparr>"

definition handleNumberPress :: "string \<Rightarrow> CalculatorState \<Rightarrow> CalculatorState" where
  "handleNumberPress digit prev =
     (if error prev
      then INITIAL_CALCULATOR_STATE\<lparr> display := digit, waitingForOperand := False \<rparr>
      else if waitingForOperand prev
      then prev\<lparr> display := digit, waitingForOperand := False \<rparr>
      else
        let potentialDisplay = (if display prev = ''0'' \<and> digit \<noteq> ''.''
                                then digit else display prev @ digit);
            potentialValue = getDisplayValue potentialDisplay
        in if \<bar>potentialValue\<bar> > MAX_VALUE then prev
           else prev\<lparr> display := potentialDisplay \<rparr>)"

definition handleDecimal :: "CalculatorState \<Rightarrow> CalculatorState" where
  "handleDecimal prev =
     (if error prev then INITIAL_CALCULATOR_STATE\<lparr> display := ''0.'' \<rparr>
      else if waitingForOperand prev
      then prev\<lparr> display := ''0.'', waitingForOperand := False \<rparr>
      else if str_includes ''.'' (display prev) then prev
      else prev\<lparr> display := display prev @ ''.'' \<rparr>)"

definition handleOperatorPress ::
  "CalculatorMode \<Rightarrow> Operation option \<Rightarrow> CalculatorState \<Rightarrow> CalculatorState" where
  "handleOperatorPress mode newOperation prev =
     (if error prev then prev
      else
        let currentValue = getDisplayValue (display prev);
            operatorSymbol = (case newOperation of None \<Rightarrow> '''' | Some op \<Rightarrow> opSymbol op)
        in if previousValue prev \<noteq> None \<and> operation prev \<noteq> None \<and> \<not> waitingForOperand prev
           then
             let c = calculate (the (previousValue prev)) (operation prev) currentValue mode
             in if calcError c
                then prev\<lparr> error := True, errorMessage := calcErrorMessage c,
                           display := ''0'', expression := '''' \<rparr>
                else
                  let displayResult = formatForDisplay (Inr (result c)) mode ''''
                  in prev\<lparr> display := displayResult,
                            expression := displayResult @ '' '' @ operatorSymbol,
                            previousValue := Some (result c),
                            operation := newOperation,
                            waitingForOperand := True,
                            error := False, errorMessage := '''' \<rparr>
           else prev\<lparr> previousValue := Some currentValue,
                      expression := display prev @ '' '' @ operatorSymbol,
                      operation := newOperation, waitingForOperand := True,
                      error := False, errorMessage := '''' \<rparr>)"

text \<open>
  The value returned by the state updater of \<^verbatim>\<open>handleEquals\<close>; saving the history
  entry is a side effect on the storage and leaves the session state alone.
\<close>

definition handleEquals :: "CalculatorMode \<Rightarrow> CalculatorState \<Rightarrow> CalculatorState" where
  "handleEquals mode prev =
     (if error prev \<or> operation prev = None \<or> previousValue prev = None then prev
      else
        let currentValue = getDisplayValue (display prev);
            c = calculate (the (previousValue prev)) (operation prev) currentValue mode
        in if calcError c
           then prev\<lparr> error := True, errorMessage := calcErrorMessage c,
                      display := ''0'', expression := '''', waitingForOperand := True \<rparr>
           else
             let displayResult = formatForDisplay (Inr (result c)) mode ''''
             in prev\<lparr> display := displayResult,
                       expression := expression prev @ '' '' @ display prev @ '' = ''
                                       @ displayResult,
                       previousValue := Some (result c),
                       operation := None,
                       waitingForOperand := True,
                       error := False, errorMessage := '''' \<rparr>)"

definition handleBackspace :: "CalculatorState \<Rightarrow> CalculatorState" where
  "handleBackspace prev =
     (if error prev \<or> waitingForOperand prev then prev
      else let sliced = butlast (display prev)
           in prev\<lparr> display := (if sliced = '''' then ''0'' else sliced) \<rparr>)"

definition handleClear :: "CalculatorState \<Rightarrow> CalculatorState" where
  "handleClear prev =
     prev\<lparr> display := ''0'', waitingForOperand := True, error := False, errorMessage := '''' \<rparr>"

definition handleAllClear :: "CalculatorState \<Rightarrow> CalculatorState" where
  "handleAllClear prev = INITIAL_CALCULATOR_STATE"

definition handleNegative :: "CalculatorState \<Rightarrow> CalculatorState" where
  "handleNegative prev =
     (if error prev then prev
      else let v = getDisplayValue (display prev);
               toggled = - v
           in prev\<lparr> display := (if toggled = 0 then ''0'' else numToString toggled) \<rparr>)"

subsection \<open>The digit handler of the hook \<^verbatim>\<open>useCalculator\<close>\<close>

definition useCalculator_handleNumberPress :: "string \<Rightarrow> CalculatorState \<Rightarrow> CalculatorState" where
  "useCalculator_handleNumberPress digit prev =
     (if error prev
      then INITIAL_STATE\<lparr> display := digit, waitingForOperand := False \<rparr>
      else if waitingForOperand prev
      then prev\<lparr> display := digit, waitingForOperand := False \<rparr>
      else if display prev = ''0'' \<and> digit \<noteq> ''.''
      then prev\<lparr> display := digit \<rparr>
      else prev\<lparr> display := display prev @ digit \<rparr>)"

subsection \<open>Input events\<close>

datatype Event =
    NumberPress string
  | DecimalPress
  | NegativeToggle
  | OperatorPress "Operation option"
  | EqualsPress
  | BackspacePress
  | ClearPress
  | AllClearPress

text \<open>One event of the keypad, in the mode the settings hold when it is pressed.\<close>

fun step :: "CalculatorMode \<Rightarrow> Event \<Rightarrow> CalculatorState \<Rightarrow> CalculatorState" where
  "step mode (NumberPress digit) s = handleNumberPress digit s"
| "step mode DecimalPress s = handleDecimal s"
| "step mode NegativeToggle s = handleNegative s"
| "step mode (OperatorPress op) s = handleOperatorPress mode op s"
| "step mode EqualsPress s = handleEquals mode s"
| "step mode BackspacePress s = handleBackspace s"
| "step mode ClearPress s = handleClear s"
| "step mode AllClearPress s = handleAllClear s"

text \<open>The states reachable from the initial state; the mode may change between events.\<close>

inductive reachable :: "CalculatorState \<Rightarrow> bool" where
  initial: "reachable INITIAL_CALCULATOR_STATE"
| event: "reachable s \<Longrightarrow> reachable (step mode e s)"

section \<open>Undo/redo history (hook \<^verbatim>\<open>useUndoRedo\<close>)\<close>

definition UNDO_REDO_STACK_SIZE :: nat where
  "UNDO_REDO_STACK_SIZE = 20"

record UndoRedoState =
  stack :: "CalculatorState list"
  currentIndex :: nat

record Feedback =
  message :: string
  isUndo :: bool

text \<open>The hook holds two state cells: the stack with its index, and the feedback.\<close>

record UndoRedoHook =
  undoRedo :: UndoRedoState
  feedback :: "Feedback option"

definition useUndoRedo :: "CalculatorState \<Rightarrow> UndoRedoHook" where
  "useUndoRedo initialState =
     \<lparr> undoRedo = \<lparr> stack = [initialState], currentIndex = 0 \<rparr>, feedback = None \<rparr>"

text \<open>
  \<^verbatim>\<open>pushState\<close>: \<^verbatim>\<open>slice(0, currentIndex + 1)\<close>, \<^verbatim>\<open>push\<close>, and when the length
  exceeds the bound \<^verbatim>\<open>shift\<close> (drop index 0) with the index set to the bound minus one.
\<close>

definition pushStateUpdater :: "CalculatorState \<Rightarrow> UndoRedoState \<Rightarrow> UndoRedoState" where
  "pushStateUpdater newState prev =
     (let newStack = take (currentIndex prev + 1) (stack prev) @ [newState]
      in if length newStack > UNDO_REDO_STACK_SIZE
         then \<lparr> stack = tl newStack, currentIndex = UNDO_REDO_STACK_SIZE - 1 \<rparr>
         else \<lparr> stack = newStack, currentIndex = length newStack - 1 \<rparr>)"

definition pushState :: "CalculatorState \<Rightarrow> UndoRedoHook \<Rightarrow> UndoRedoHook" where
  "pushState newState h = h\<lparr> undoRedo := pushStateUpdater newState (undoRedo h) \<rparr>"

text \<open>
  Reading \<^verbatim>\<open>stack[i]\<close> out of range gives \<^verbatim>\<open>undefined\<close> in JavaScript, and \<^verbatim>\<open>undo\<close>
  then reads \<^verbatim>\<open>previousState.operation\<close>, which throws a \<^verbatim>\<open>TypeError\<close>. The error is a
  value of the model.
\<close>

datatype js_error = TypeError

definition stackAt :: "CalculatorState list \<Rightarrow> nat \<Rightarrow> CalculatorState option" where
  "stackAt xs i = (if i < length xs then Some (xs ! i) else None)"

definition operationText :: "Operation option \<Rightarrow> string" where
  "operationText op =
     (case op of
        Some Add \<Rightarrow> ''added''
      | Some Subtract \<Rightarrow> ''subtracted''
      | Some Multiply \<Rightarrow> ''multiplied by''
      | Some Divide \<Rightarrow> ''divided by''
      | None \<Rightarrow> ''changed to'')"

definition undoMessage :: "CalculatorState \<Rightarrow> string" where
  "undoMessage previousState =
     UNDO_GLYPH # '' Undid last operation'' @
       (case operation previousState of
          None \<Rightarrow> ''''
        | Some op \<Rightarrow> '': '' @ operationText (Some op))"

text \<open>
  \<^verbatim>\<open>undo(onStateChange)\<close> returns the new hook state and the snapshot handed to the
  callback (\<open>None\<close> when the callback is not invoked).
\<close>

definition undo :: "UndoRedoHook \<Rightarrow> js_error + (UndoRedoHook \<times> CalculatorState option)" where
  "undo h =
     (let prev = undoRedo h in
      if currentIndex prev \<le> 0 then Inr (h, None)
      else
        let newIndex = currentIndex prev - 1 in
        case stackAt (stack prev) newIndex of
          None \<Rightarrow> Inl TypeError
        | Some previousState \<Rightarrow>
            Inr (\<lparr> undoRedo = prev\<lparr> currentIndex := newIndex \<rparr>,
                   feedback = Some \<lparr> message = undoMessage previousState, isUndo = True \<rparr> \<rparr>,
                 Some previousState))"

text \<open>
  \<^verbatim>\<open>redo\<close> returns early when \<^verbatim>\<open>currentIndex >= stack.length - 1\<close> (integer
  arithmetic: the right side is \<open>-1\<close> for an empty stack), so its read is in range.
\<close>

definition redo :: "UndoRedoHook \<Rightarrow> UndoRedoHook \<times> CalculatorState option" where
  "redo h =
     (let prev = undoRedo h in
      if int (currentIndex prev) \<ge> int (length (stack prev)) - 1 then (h, None)
      else
        let newIndex = currentIndex prev + 1; nextState = stack prev ! newIndex in
        (\<lparr> undoRedo = prev\<lparr> currentIndex := newIndex \<rparr>,
           feedback = Some \<lparr> message = REDO_GLYPH # '' Redid operation'', isUndo = False \<rparr> \<rparr>,
         Some nextState))"

definition canUndo :: "UndoRedoHook \<Rightarrow> bool" where
  "canUndo h = (currentIndex (undoRedo h) > 0)"

definition canRedo :: "UndoRedoHook \<Rightarrow> bool" where
  "canRedo h = (int (currentIndex (undoRedo h)) < int (length (stack (undoRedo h))) - 1)"

definition clear :: "CalculatorState \<Rightarrow> UndoRedoHook \<Rightarrow> UndoRedoHook" where
  "clear initialState h =
     \<lparr> undoRedo = \<lparr> stack = [initialState], currentIndex = 0 \<rparr>, feedback = None \<rparr>"

definition clearFeedback :: "UndoRedoHook \<Rightarrow> UndoRedoHook" where
  "clearFeedback h = h\<lparr> feedback := None \<rparr>"

text \<open>A sequence of calls on the manager; it stops at the first error, as a throw would.\<close>

datatype Call = PushState CalculatorState | Undo | Redo | Clear CalculatorState

fun call :: "Call \<Rightarrow> UndoRedoHook \<Rightarrow> js_error + UndoRedoHook" where
  "call (PushState s) h = Inr (pushState s h)"
| "call Undo h = (case undo h of Inl e \<Rightarrow> Inl e | Inr (h', _) \<Rightarrow> Inr h')"
| "call Redo h = Inr (fst (redo h))"
| "call (Clear s) h = Inr (clear s h)"

fun calls :: "Call list \<Rightarrow> UndoRedoHook \<Rightarrow> js_error + UndoRedoHook" where
  "calls [] h = Inr h"
| "calls (c # cs) h = (case call c h of Inl e \<Rightarrow> Inl e | Inr h' \<Rightarrow> calls cs h')"


section \<open>The calculator screen: session state with its undo history\<close>

text \<open>
  The component holds the session state, the mode of the settings, the undo/redo
  hook and the reference \<^verbatim>\<open>prevStateRef\<close>. After every state change React runs the
  effect that records the state in the history.
\<close>

record Screen =
  calculatorState :: CalculatorState
  settingsMode :: CalculatorMode
  undoRedoHook :: UndoRedoHook
  prevStateRef :: "CalculatorState option"

text \<open>
  The effect: on the first run it only stores the state in the reference; later it
  pushes the state when \<^verbatim>\<open>display\<close>, \<^verbatim>\<open>operation\<close> or \<^verbatim>\<open>previousValue\<close> differ from the
  reference and the state is not an error.
\<close>

definition trackState :: "Screen \<Rightarrow> Screen" where
  "trackState scr =
     (case prevStateRef scr of
        None \<Rightarrow> scr\<lparr> prevStateRef := Some (calculatorState scr) \<rparr>
      | Some p \<Rightarrow>
          let c = calculatorState scr;
              stateChanged = (display p \<noteq> display c \<or> operation p \<noteq> operation c \<or>
                              previousValue p \<noteq> previousValue c)
          in if stateChanged \<and> \<not> error c
             then scr\<lparr> undoRedoHook := pushState c (undoRedoHook scr), prevStateRef := Some c \<rparr>
             else scr)"

text \<open>The screen after mounting: the first render and the first run of the effect.\<close>

definition initialScreen :: Screen where
  "initialScreen =
     trackState \<lparr> calculatorState = INITIAL_CALCULATOR_STATE, settingsMode = Checkbook,
                  undoRedoHook = useUndoRedo INITIAL_CALCULATOR_STATE, prevStateRef = None \<rparr>"

definition pressKey :: "Event \<Rightarrow> Screen \<Rightarrow> Screen" where
  "pressKey e scr =
     trackState (scr\<lparr> calculatorState := step (settingsMode scr) e (calculatorState scr) \<rparr>)"

text \<open>
  \<^verbatim>\<open>handleUndo\<close> and \<^verbatim>\<open>handleRedo\<close>: the hook hands the snapshot to \<^verbatim>\<open>restoreState\<close>,
  which replaces the session state; the effect runs on the new state.
\<close>

definition handleUndo :: "Screen \<Rightarrow> js_error + Screen" where
  "handleUndo scr =
     (if canUndo (undoRedoHook scr)
      then (case undo (undoRedoHook scr) of
              Inl e \<Rightarrow> Inl e
            | Inr (h, restored) \<Rightarrow>
                Inr (trackState (scr\<lparr> undoRedoHook := h,
                                      calculatorState := (case restored of
                                                            None \<Rightarrow> calculatorState scr
                                                          | Some s \<Rightarrow> s) \<rparr>)))
      else Inr scr)"

definition handleRedo :: "Screen \<Rightarrow> Screen" where
  "handleRedo scr =
     (if canRedo (undoRedoHook scr)
      then (case redo (undoRedoHook scr) of
              (h, restored) \<Rightarrow>
                trackState (scr\<lparr> undoRedoHook := h,
                                 calculatorState := (case restored of
                                                       None \<Rightarrow> calculatorState scr
                                                     | Some s \<Rightarrow> s) \<rparr>))
      else scr)"

text \<open>\<^verbatim>\<open>handleModeChange\<close>, once the warning is dismissed: the settings take the new mode.\<close>

definition setMode :: "CalculatorMode \<Rightarrow> Screen \<Rightarrow> Screen" where
  "setMode m scr = scr\<lparr> settingsMode := m \<rparr>"

text \<open>The screens reachable from the mounted one by keys, undo, redo and mode changes.\<close>

inductive reachableScreen :: "Screen \<Rightarrow> bool" where
  mounted: "reachableScreen initialScreen"
| key: "reachableScreen scr \<Longrightarrow> reachableScreen (pressKey e scr)"
| undone: "reachableScreen scr \<Longrightarrow> handleUndo scr = Inr scr' \<Longrightarrow> reachableScreen scr'"
| redone: "reachableScreen scr \<Longrightarrow> reachableScreen (handleRedo scr)"
| mode: "reachableScreen scr \<Longrightarrow> reachableScreen (setMode m scr)"

text \<open>The session state a screen operation leaves, and \<open>n\<close> presses of the undo key.\<close>

definition sessionOf :: "js_error + Screen \<Rightarrow> js_error + CalculatorState" where
  "sessionOf r = (case r of Inl e \<Rightarrow> Inl e | Inr scr \<Rightarrow> Inr (calculatorState scr))"

fun handleUndos :: "nat \<Rightarrow> Screen \<Rightarrow> js_error + Screen" where
  "handleUndos 0 scr = Inr scr"
| "handleUndos (Suc n) scr =
     (case handleUndo scr of Inl e \<Rightarrow> Inl e | Inr scr' \<Rightarrow> handleUndos n scr')"

text \<open>
  The loop of the repository's own test of the bound:
  \<^verbatim>\<open>while (canUndo()) { undo(() => {}); undoCount++ }\<close>.
\<close>

function countUndos :: "UndoRedoHook \<Rightarrow> nat" where
  "countUndos h =
     (if canUndo h
      then (case undo h of Inl e \<Rightarrow> 0 | Inr (h', _) \<Rightarrow> Suc (countUndos h'))
      else 0)"
  by pat_completeness auto
termination
  apply (relation "measure (\<lambda>h. currentIndex (undoRedo h))")
   apply simp
  apply (auto simp: undo_def canUndo_def Let_def split: if_splits option.splits)
  done

declare countUndos.simps [simp del]

text \<open>The invariant of the manager: the index is inside the stack, the stack within the bound.\<close>

definition wf_stack :: "UndoRedoState \<Rightarrow> bool" where
  "wf_stack p = (currentIndex p < length (stack p) \<and> length (stack p) \<le> UNDO_REDO_STACK_SIZE)"

text \<open>The history of a screen is well formed and holds no error state.\<close>

definition recorded_ok :: "UndoRedoHook \<Rightarrow> bool" where
  "recorded_ok h = (wf_stack (undoRedo h) \<and> (\<forall>s \<in> set (stack (undoRedo h)). \<not> error s))"

section \<open>Concrete sessions\<close>

text \<open>The display \<^verbatim>\<open>999999999\<close> typed into a fresh session.\<close>

definition nines :: CalculatorState where
  "nines = INITIAL_CALCULATOR_STATE\<lparr> display := ''999999999'' \<rparr>"

text \<open>The keys \<^verbatim>\<open>5\<close>, division, \<^verbatim>\<open>0\<close>, equals in Checkbook mode.\<close>

definition divideByZeroState :: CalculatorState where
  "divideByZeroState =
     step Checkbook EqualsPress
       (step Checkbook (NumberPress ''0'')
          (step Checkbook (OperatorPress (Some Divide))
             (step Checkbook (NumberPress ''5'') INITIAL_CALCULATOR_STATE)))"

text \<open>The same keys on the mounted screen, before and after the equals key.\<close>

definition beforeEqualsScreen :: Screen where
  "beforeEqualsScreen =
     pressKey (NumberPress ''0'')
       (pressKey (OperatorPress (Some Divide))
          (pressKey (NumberPress ''5'') initialScreen))"

definition divideByZeroScreen :: Screen where
  "divideByZeroScreen = pressKey EqualsPress beforeEqualsScreen"

section \<open>Properties of the calculation engine and of the session\<close>


lemma divide_by_zero_included: "str_includes ''divide by zero'' DIVIDE_BY_ZERO_MESSAGE"
  by code_simp

lemma too_large_included: "str_includes ''too large'' TOO_LARGE_MESSAGE"
  by code_simp

text \<open>
  Claim C1. For every first operand and every mode, dividing by zero returns
  \<^verbatim>\<open>error = true\<close>, \<^verbatim>\<open>result = 0\<close> and a message that contains "divide by zero". The
  function is total: it returns this value and nothing escapes it.
\<close>

theorem calculate_divide_by_zero:
  "calcError (calculate a (Some Divide) 0 mode) \<and>
   result (calculate a (Some Divide) 0 mode) = 0 \<and>
   str_includes ''divide by zero'' (calcErrorMessage (calculate a (Some Divide) 0 mode))"
  by (simp add: calculate_def switchOperation_def divide_by_zero_included)

lemma calculate_raw:
  "switchOperation op a b = Inr raw \<Longrightarrow>
   calculate a (Some op) b mode =
     (if \<bar>roundToMode raw mode\<bar> > MAX_VALUE
      then \<lparr> result = 0, calcError = True, calcErrorMessage = TOO_LARGE_MESSAGE \<rparr>
      else \<lparr> result = roundToMode raw mode, calcError = False, calcErrorMessage = '''' \<rparr>)"
  by (simp add: calculate_def Let_def)

lemma boundary_ok:
  "calculate 999999999 (Some Add) (fl (99 / 100)) mode =
     \<lparr> result = fl (99999999999 / 100), calcError = False, calcErrorMessage = '''' \<rparr>"
proof (cases mode)
  case Checkbook
  show ?thesis unfolding Checkbook by code_simp
next
  case Scientific
  show ?thesis unfolding Scientific by code_simp
qed

lemma boundary_too_large:
  "calculate 999999999 (Some Add) 1 mode =
     \<lparr> result = 0, calcError = True, calcErrorMessage = TOO_LARGE_MESSAGE \<rparr>"
proof (cases mode)
  case Checkbook
  show ?thesis unfolding Checkbook by code_simp
next
  case Scientific
  show ?thesis unfolding Scientific by code_simp
qed

lemma rounding_first:
  "js_add 999999999 (fl (994 / 1000)) > MAX_VALUE \<and>
   calculate 999999999 (Some Add) (fl (994 / 1000)) Checkbook =
     \<lparr> result = fl (99999999999 / 100), calcError = False, calcErrorMessage = '''' \<rparr>"
  by code_simp


text \<open>
  Claim C2. Whenever the \<^verbatim>\<open>switch\<close> yields a raw result, \<^verbatim>\<open>calculate\<close> fails exactly when
  the absolute value of the mode-rounded result exceeds the literal 999999999.99; the
  failure has \<^verbatim>\<open>result = 0\<close> and a message containing "too large", and a success returns
  the rounded value. In both modes 999999999 + 0.99 succeeds with 999999999.99 and
  999999999 + 1 fails. Rounding comes first: 999999999 + 0.994 exceeds the bound before
  rounding and still succeeds in Checkbook mode, with 999999999.99.
\<close>

theorem calculate_range_check:
  "(switchOperation op a b = Inr raw \<longrightarrow>
      (calcError (calculate a (Some op) b mode) \<longleftrightarrow> \<bar>roundToMode raw mode\<bar> > MAX_VALUE) \<and>
      (calcError (calculate a (Some op) b mode) \<longrightarrow>
         result (calculate a (Some op) b mode) = 0 \<and>
         str_includes ''too large'' (calcErrorMessage (calculate a (Some op) b mode))) \<and>
      (\<not> calcError (calculate a (Some op) b mode) \<longrightarrow>
         result (calculate a (Some op) b mode) = roundToMode raw mode)) \<and>
   calculate 999999999 (Some Add) (fl (99 / 100)) mode =
     \<lparr> result = fl (99999999999 / 100), calcError = False, calcErrorMessage = '''' \<rparr> \<and>
   calculate 999999999 (Some Add) 1 mode =
     \<lparr> result = 0, calcError = True, calcErrorMessage = TOO_LARGE_MESSAGE \<rparr> \<and>
   MAX_VALUE < js_add 999999999 (fl (994 / 1000)) \<and>
   calculate 999999999 (Some Add) (fl (994 / 1000)) Checkbook =
     \<lparr> result = fl (99999999999 / 100), calcError = False, calcErrorMessage = '''' \<rparr>"
  using rounding_first
  by (auto simp: calculate_raw boundary_ok boundary_too_large too_large_included)

theorem calculate_range_check_witness:
  "switchOperation Multiply 100000 100000 = Inr 10000000000 \<and>
   calcError (calculate 100000 (Some Multiply) 100000 Checkbook) \<and>
   \<bar>roundToMode 10000000000 Checkbook\<bar> > MAX_VALUE \<and>
   result (calculate 100000 (Some Multiply) 100000 Checkbook) = 0"
proof -
  have 1: "switchOperation Multiply 100000 100000 = Inr 10000000000" by code_simp
  have 2: "\<bar>roundToMode 10000000000 Checkbook\<bar> > MAX_VALUE" by code_simp
  from calculate_range_check[of Multiply 100000 100000 10000000000 Checkbook] 1 2
  show ?thesis by simp
qed

subsection \<open>Rounding\<close>


text \<open>Known doubles: 0.1, and the sum 0.1 + 0.2, which is not the double of 0.3.\<close>

lemma fl_one_tenth:
  "fl (1 / 10) = 3602879701896397 / 36028797018963968 \<and>
   js_add (fl (1 / 10)) (fl (2 / 10)) = 5404319552844596 / 18014398509481984 \<and>
   js_add (fl (1 / 10)) (fl (2 / 10)) \<noteq> fl (3 / 10)"
  by code_simp

lemma ilog2_lower:
  assumes "0 < x"
  shows "2 powi (ilog2 x) \<le> x"
proof -
  obtain p q where pq: "quotient_of x = (p, q)" by (cases "quotient_of x")
  have q: "0 < q" using pq by (rule quotient_of_denom_pos)
  have x: "x = of_int p / of_int q" using pq by (rule quotient_of_div)
  have p: "0 < p" using assms q x by (simp add: zero_less_divide_iff)
  let ?k = "bitlen p - bitlen q"
  show ?thesis
  proof (cases "2 powi ?k \<le> x")
    case True
    then show ?thesis by (simp add: ilog2_def pq)
  next
    case False
    have bp: "2 ^ nat (bitlen p - 1) \<le> p" using bitlen_bounds[OF p] by simp
    have bq: "q < 2 ^ nat (bitlen q)" using bitlen_bounds[OF q] by simp
    have bp1: "1 \<le> bitlen p" using p by (simp add: bitlen_alt_def) 
    have bq0: "0 \<le> bitlen q" by (rule bitlen_nonneg)
    have e1: "(2::rat) powi (?k - 1) = 2 powi (bitlen p - 1) / 2 powi (bitlen q)"
      by (simp add: power_int_diff)
    have e2: "(2::rat) powi (bitlen p - 1) / 2 powi (bitlen q) = 2 ^ nat (bitlen p - 1) / 2 ^ nat (bitlen q)"
      using bp1 bq0 by (simp add: power_int_def)
    have a: "(2::rat) ^ nat (bitlen p - 1) \<le> of_int p"
    proof -
      have "(of_int (2 ^ nat (bitlen p - 1)) :: rat) \<le> of_int p" using bp by (simp only: of_int_le_iff)
      then show ?thesis by simp
    qed
    have b: "(of_int q :: rat) \<le> 2 ^ nat (bitlen q)"
    proof -
      have "(of_int q :: rat) \<le> of_int (2 ^ nat (bitlen q))" using bq by (simp only: of_int_le_iff)
      then show ?thesis by simp
    qed
    have "(2::rat) ^ nat (bitlen p - 1) / 2 ^ nat (bitlen q) \<le> of_int p / of_int q"
      using a b q p by (intro frac_le) simp_all
    with e1 e2 have "(2::rat) powi (?k - 1) \<le> x" using x by simp
    with False show ?thesis by (simp add: ilog2_def pq)
  qed
qed

lemma roundHalfEven_error: "\<bar>of_int (roundHalfEven z) - z\<bar> \<le> 1 / 2"
proof -
  have "of_int \<lfloor>z\<rfloor> \<le> z" "z < of_int \<lfloor>z\<rfloor> + 1" by linarith+
  then show ?thesis by (auto simp: roundHalfEven_def Let_def)
qed


lemma fl_value:
  assumes "y \<noteq> 0"
  shows "\<bar>fl y - y\<bar> = \<bar>of_int (roundHalfEven (\<bar>y\<bar> / 2 powi (ilog2 \<bar>y\<bar> - 52))) - \<bar>y\<bar> / 2 powi (ilog2 \<bar>y\<bar> - 52)\<bar>
            * 2 powi (ilog2 \<bar>y\<bar> - 52)"
proof -
  define u :: rat where "u = 2 powi (ilog2 \<bar>y\<bar> - 52)"
  define m where "m = roundHalfEven (\<bar>y\<bar> / u)"
  have u: "0 < u" by (simp add: u_def)
  have fl: "fl y = sgn y * (of_int m * u)"
    using assms by (simp add: fl_def Let_def u_def m_def)
  have y: "y = sgn y * \<bar>y\<bar>" by (simp add: sgn_mult_abs)
  have "fl y - y = sgn y * (of_int m * u - \<bar>y\<bar>)"
    by (subst y) (simp add: fl right_diff_distrib)
  then have "\<bar>fl y - y\<bar> = \<bar>of_int m * u - \<bar>y\<bar>\<bar>"
    using assms by (simp add: abs_mult abs_sgn_eq)
  also have "of_int m * u - \<bar>y\<bar> = (of_int m - \<bar>y\<bar> / u) * u"
    using u by (simp add: field_simps)
  also have "\<bar>(of_int m - \<bar>y\<bar> / u) * u\<bar> = \<bar>of_int m - \<bar>y\<bar> / u\<bar> * u"
    using u by (simp add: abs_mult)
  finally show ?thesis by (simp add: m_def u_def)
qed

lemma fl_error:
  "\<bar>fl y - y\<bar> \<le> \<bar>y\<bar> / 2 ^ 53"
proof (cases "y = 0")
  case True
  then show ?thesis by (simp add: fl_def)
next
  case False
  define u :: rat where "u = 2 powi (ilog2 \<bar>y\<bar> - 52)"
  have u: "0 < u" by (simp add: u_def)
  have "\<bar>fl y - y\<bar> = \<bar>of_int (roundHalfEven (\<bar>y\<bar> / u)) - \<bar>y\<bar> / u\<bar> * u"
    unfolding u_def by (rule fl_value[OF False])
  also have "\<dots> \<le> 1 / 2 * u"
    using roundHalfEven_error[of "\<bar>y\<bar> / u"] u by (intro mult_right_mono) simp_all
  also have "\<dots> \<le> \<bar>y\<bar> / 2 ^ 53"
  proof -
    have "2 powi (ilog2 \<bar>y\<bar>) \<le> \<bar>y\<bar>" using False by (intro ilog2_lower) simp
    moreover have "(2::rat) powi (ilog2 \<bar>y\<bar>) = u * 2 ^ 52"
      by (simp add: u_def power_int_diff)
    ultimately show ?thesis by simp
  qed
  finally show ?thesis .
qed


lemma Math_round_unique:
  "of_int n - 1 / 2 \<le> y \<Longrightarrow> y < of_int n + 1 / 2 \<Longrightarrow> Math_round y = of_int n"
proof -
  assume "of_int n - 1 / 2 \<le> y" "y < of_int n + 1 / 2"
  then have "\<lfloor>y + 1 / 2\<rfloor> = n" by (intro floor_unique) simp_all
  then show ?thesis by (simp add: Math_round_def)
qed

lemma scale_round_trip:
  fixes n :: int and F :: rat
  assumes F: "0 < F" and n: "\<bar>of_int n :: rat\<bar> \<le> 10 ^ 15"
  shows "Math_round (js_mul (js_div (of_int n) F) F) = of_int n"
proof -
  define N :: rat where "N = of_int n"
  define r where "r = fl (N / F)"
  define y where "y = fl (r * F)"
  have N: "\<bar>N\<bar> \<le> 10 ^ 15" using n by (simp add: N_def)
  have 1: "\<bar>r - N / F\<bar> \<le> \<bar>N / F\<bar> / 2 ^ 53" unfolding r_def by (rule fl_error)
  have "r * F - N = (r - N / F) * F" using F by (simp add: field_simps)
  then have "\<bar>r * F - N\<bar> = \<bar>r - N / F\<bar> * F" using F by (simp add: abs_mult)
  also have "\<dots> \<le> \<bar>N / F\<bar> / 2 ^ 53 * F" using 1 F by (intro mult_right_mono) simp_all
  also have "\<dots> = \<bar>N\<bar> / 2 ^ 53" using F by (simp add: abs_divide)
  finally have 2: "\<bar>r * F - N\<bar> \<le> \<bar>N\<bar> / 2 ^ 53" .
  have 3: "\<bar>y - r * F\<bar> \<le> \<bar>r * F\<bar> / 2 ^ 53" unfolding y_def by (rule fl_error)
  have "\<bar>r * F\<bar> \<le> \<bar>N\<bar> + \<bar>N\<bar> / 2 ^ 53" using 2 by linarith
  then have 4: "\<bar>y - r * F\<bar> \<le> (\<bar>N\<bar> + \<bar>N\<bar> / 2 ^ 53) / 2 ^ 53"
    using 3 by (simp add: field_simps)
  have "\<bar>y - N\<bar> \<le> \<bar>N\<bar> / 2 ^ 53 + (\<bar>N\<bar> + \<bar>N\<bar> / 2 ^ 53) / 2 ^ 53"
    using 2 4 by linarith
  also have "\<dots> < 1 / 2" using N by (simp add: field_simps)
  finally have "\<bar>y - N\<bar> < 1 / 2" .
  then have "of_int n - 1 / 2 \<le> y" "y < of_int n + 1 / 2" unfolding N_def by linarith+
  then have "Math_round y = of_int n" by (rule Math_round_unique)
  then show ?thesis by (simp add: y_def r_def N_def js_mul_def js_div_def)
qed

lemma Math_round_int: "Math_round y = of_int \<lfloor>y + 1 / 2\<rfloor>"
  by (simp add: Math_round_def)

lemma idempotent_scaled:
  assumes "\<bar>Math_round (js_mul x (10 ^ decimalPlaces mode))\<bar> \<le> 10 ^ 15"
  shows "roundToMode (roundToMode x mode) mode = roundToMode x mode"
proof -
  define F :: rat where "F = 10 ^ decimalPlaces mode"
  define n where "n = \<lfloor>js_mul x F + 1 / 2\<rfloor>"
  have F: "0 < F" by (simp add: F_def)
  have n: "\<bar>of_int n :: rat\<bar> \<le> 10 ^ 15"
    using assms by (simp add: Math_round_def F_def n_def)
  have r: "roundToMode x mode = js_div (of_int n) F"
    by (simp add: roundToMode_def Let_def Math_round_def F_def n_def)
  have "roundToMode (js_div (of_int n) F) mode
          = js_div (Math_round (js_mul (js_div (of_int n) F) F)) F"
    by (simp add: roundToMode_def Let_def F_def)
  also have "\<dots> = js_div (of_int n) F"
    by (simp only: scale_round_trip[OF F n])
  finally show ?thesis by (simp add: r)
qed

lemma scaled_bound:
  assumes "\<bar>x\<bar> * 10 ^ decimalPlaces mode \<le> 9 * 10 ^ 14"
  shows "\<bar>Math_round (js_mul x (10 ^ decimalPlaces mode))\<bar> \<le> 10 ^ 15"
proof -
  define F :: rat where "F = 10 ^ decimalPlaces mode"
  define y where "y = fl (x * F)"
  have F: "0 < F" by (simp add: F_def)
  have xF: "\<bar>x * F\<bar> \<le> 9 * 10 ^ 14" using assms F by (simp add: abs_mult F_def)
  have "\<bar>y - x * F\<bar> \<le> \<bar>x * F\<bar> / 2 ^ 53" unfolding y_def by (rule fl_error)
  also have "\<dots> \<le> 9 * 10 ^ 14 / 2 ^ 53" using xF by (simp add: divide_right_mono)
  finally have "\<bar>y\<bar> \<le> 9 * 10 ^ 14 + 9 * 10 ^ 14 / 2 ^ 53" using xF by linarith
  then have y: "\<bar>y\<bar> \<le> 10 ^ 15 - 1" by simp
  have "of_int \<lfloor>y + 1 / 2\<rfloor> \<le> y + 1 / 2" "y + 1 / 2 < of_int \<lfloor>y + 1 / 2\<rfloor> + 1"
    by linarith+
  with y have "\<bar>of_int \<lfloor>y + 1 / 2\<rfloor> :: rat\<bar> \<le> 10 ^ 15" by linarith
  then show ?thesis by (simp add: Math_round_def js_mul_def y_def F_def)
qed

text \<open>
  Claim C9, as amended. \<^verbatim>\<open>roundToMode\<close> is idempotent whenever the scaled and rounded
  value \<^verbatim>\<open>Math.round(x * 10^d)\<close> is at most \<open>10\<^sup>1\<^sup>5\<close> in magnitude, in particular whenever
  \<open>|x| * 10\<^sup>d \<le> 9 * 10\<^sup>1\<^sup>4\<close>: every \<open>x\<close> up to \<open>9 * 10\<^sup>1\<^sup>2\<close> in Checkbook mode (the whole
  validity range) and up to \<open>9 * 10\<^sup>6\<close> in Scientific mode.
\<close>

theorem roundToMode_idempotent_in_range:
  "(\<bar>Math_round (js_mul x (10 ^ decimalPlaces mode))\<bar> \<le> 10 ^ 15 \<longrightarrow>
      roundToMode (roundToMode x mode) mode = roundToMode x mode) \<and>
   (\<bar>x\<bar> * 10 ^ decimalPlaces mode \<le> 9 * 10 ^ 14 \<longrightarrow>
      roundToMode (roundToMode x mode) mode = roundToMode x mode)"
  using idempotent_scaled[of x mode] scaled_bound[of x mode] by blast

theorem roundToMode_idempotent_in_range_witness:
  "\<bar>Math_round (js_mul (fl (3145 / 1000)) (10 ^ decimalPlaces Checkbook))\<bar> \<le> 10 ^ 15 \<and>
   \<bar>fl (3145 / 1000)\<bar> * 10 ^ decimalPlaces Checkbook \<le> 9 * 10 ^ 14 \<and>
   roundToMode (roundToMode (fl (3145 / 1000)) Checkbook) Checkbook
     = roundToMode (fl (3145 / 1000)) Checkbook"
proof -
  have 1: "\<bar>Math_round (js_mul (fl (3145 / 1000)) (10 ^ decimalPlaces Checkbook))\<bar> \<le> 10 ^ 15"
    and 2: "\<bar>fl (3145 / 1000)\<bar> * 10 ^ decimalPlaces Checkbook \<le> 9 * 10 ^ 14"
    by code_simp+
  from roundToMode_idempotent_in_range[of "fl (3145 / 1000)" Checkbook] 1 2
  show ?thesis by simp
qed

text \<open>
  Claim C9 as stated fails. The double \<open>153470191774101 / 2\<^sup>2\<^sup>2\<close> (the literal
  36590145.057225466, inside the validity range) rounds in Scientific mode to the
  double of 36590145.05722547, and that one rounds to the double of 36590145.05722548:
  dividing by \<open>10\<^sup>8\<close> and multiplying back lands on a tie.
\<close>

theorem roundToMode_idempotent_counterexample:
  "roundToMode (roundToMode (153470191774101 / 4194304) Scientific) Scientific
     \<noteq> roundToMode (153470191774101 / 4194304) Scientific"
  by code_simp

lemma counterexample_is_double:
  "fl (153470191774101 / 4194304) = 153470191774101 / 4194304 \<and>
   fl (36590145057225466 / 10 ^ 9) = 153470191774101 / 4194304 \<and>
   \<bar>153470191774101 / 4194304 :: rat\<bar> \<le> MAX_VALUE \<and>
   roundToMode (153470191774101 / 4194304) Scientific = fl (3659014505722547 / 10 ^ 8) \<and>
   roundToMode (fl (3659014505722547 / 10 ^ 8)) Scientific = fl (3659014505722548 / 10 ^ 8)"
  by code_simp


lemma decimalPlaces_values: "decimalPlaces Checkbook = 2" "decimalPlaces Scientific = 8"
  by (simp_all add: decimalPlaces_def DECIMAL_PLACES_CHECKBOOK_def DECIMAL_PLACES_SCIENTIFIC_def)

lemma away_agrees:
  assumes "0 \<le> y \<or> y + 1 / 2 \<noteq> of_int \<lfloor>y + 1 / 2\<rfloor>"
  shows "roundHalfAwayFromZero y = Math_round y"
proof (cases "0 \<le> y")
  case True
  have half: "\<lfloor>(1::rat) / 2\<rfloor> = 0" by (intro floor_unique) simp_all
  from True show ?thesis
    by (cases "y = 0") (simp_all add: roundHalfAwayFromZero_def Math_round_def half)
next
  case False
  with assms have nt: "y + 1 / 2 \<noteq> of_int \<lfloor>y + 1 / 2\<rfloor>" by simp
  define n where "n = \<lfloor>y + 1 / 2\<rfloor>"
  have lo: "of_int n \<le> y + 1 / 2" and hi: "y + 1 / 2 < of_int n + 1"
    unfolding n_def by linarith+
  from lo nt have lo': "of_int n < y + 1 / 2" unfolding n_def by linarith
  have "\<lfloor>- y + 1 / 2\<rfloor> = - n"
    using lo' hi by (intro floor_unique) simp_all
  then show ?thesis
    using False by (simp add: roundHalfAwayFromZero_def Math_round_def n_def)
qed

lemma spec_agrees:
  assumes "0 \<le> js_mul x (10 ^ decimalPlaces mode) \<or>
           js_mul x (10 ^ decimalPlaces mode) + 1 / 2
             \<noteq> of_int \<lfloor>js_mul x (10 ^ decimalPlaces mode) + 1 / 2\<rfloor>"
  shows "roundToMode x mode = spec_roundToMode x mode"
proof -
  have d: "spec_decimals mode = decimalPlaces mode"
    by (cases mode) (simp_all add: decimalPlaces_values)
  show ?thesis
    using away_agrees[OF assms]
    by (simp add: roundToMode_def spec_roundToMode_def Let_def d)
qed

text \<open>
  Claim C7, as amended. \<^verbatim>\<open>roundToMode\<close> scales by \<open>10\<^sup>d\<close> (\<open>d = 2\<close> for Checkbook, 8 for
  Scientific), takes the integer \<open>n\<close> with \<open>n - 1/2 \<le> scaled < n + 1/2\<close>, so a tie goes to
  the larger integer (towards \<open>+\<infinity>\<close>), and divides back. It agrees with the rule of the
  specification (ties away from zero) whenever the scaled value is not negative or is
  not a tie. \<^verbatim>\<open>roundToMode(3.145, Checkbook)\<close> is 3.15.
\<close>

theorem roundToMode_ties_up:
  "(of_int n - 1 / 2 \<le> js_mul x (10 ^ decimalPlaces mode) \<and>
    js_mul x (10 ^ decimalPlaces mode) < of_int n + 1 / 2 \<longrightarrow>
      roundToMode x mode = js_div (of_int n) (10 ^ decimalPlaces mode)) \<and>
   decimalPlaces Checkbook = 2 \<and> decimalPlaces Scientific = 8 \<and>
   (0 \<le> js_mul x (10 ^ decimalPlaces mode) \<or>
    js_mul x (10 ^ decimalPlaces mode) + 1 / 2
      \<noteq> of_int \<lfloor>js_mul x (10 ^ decimalPlaces mode) + 1 / 2\<rfloor> \<longrightarrow>
      roundToMode x mode = spec_roundToMode x mode) \<and>
   roundToMode (fl (3145 / 1000)) Checkbook = fl (315 / 100)"
proof (intro conjI impI)
  assume "of_int n - 1 / 2 \<le> js_mul x (10 ^ decimalPlaces mode) \<and>
    js_mul x (10 ^ decimalPlaces mode) < of_int n + 1 / 2"
  then have "Math_round (js_mul x (10 ^ decimalPlaces mode)) = of_int n"
    by (intro Math_round_unique) simp_all
  then show "roundToMode x mode = js_div (of_int n) (10 ^ decimalPlaces mode)"
    by (simp add: roundToMode_def Let_def)
next
  assume "0 \<le> js_mul x (10 ^ decimalPlaces mode) \<or>
    js_mul x (10 ^ decimalPlaces mode) + 1 / 2
      \<noteq> of_int \<lfloor>js_mul x (10 ^ decimalPlaces mode) + 1 / 2\<rfloor>"
  then show "roundToMode x mode = spec_roundToMode x mode" by (rule spec_agrees)
next
  show "roundToMode (fl (3145 / 1000)) Checkbook = fl (315 / 100)" by code_simp
qed (simp_all add: decimalPlaces_values)

theorem roundToMode_ties_up_witness:
  "of_int (-12) - 1 / 2 \<le> js_mul (- 1 / 8) (10 ^ decimalPlaces Checkbook) \<and>
   js_mul (- 1 / 8) (10 ^ decimalPlaces Checkbook) < of_int (-12) + 1 / 2 \<and>
   roundToMode (- 1 / 8) Checkbook = js_div (of_int (-12)) (10 ^ decimalPlaces Checkbook) \<and>
   0 \<le> js_mul (1 / 8) (10 ^ decimalPlaces Checkbook) \<and>
   roundToMode (1 / 8) Checkbook = spec_roundToMode (1 / 8) Checkbook"
proof -
  have 1: "of_int (-12) - 1 / 2 \<le> js_mul (- 1 / 8) (10 ^ decimalPlaces Checkbook)"
    and 2: "js_mul (- 1 / 8) (10 ^ decimalPlaces Checkbook) < of_int (-12) + 1 / 2"
    and 3: "0 \<le> js_mul (1 / 8) (10 ^ decimalPlaces Checkbook)"
    by code_simp+
  from roundToMode_ties_up[of "-12" "- 1 / 8" Checkbook] roundToMode_ties_up[of 0 "1 / 8" Checkbook]
    1 2 3
  show ?thesis by simp
qed

text \<open>
  Claim C7 as stated fails on a negative tie: \<open>-0.125\<close> scales to exactly \<open>-12.5\<close>, which
  \<^verbatim>\<open>Math.round\<close> takes to \<open>-12\<close>, so the result is \<open>-0.12\<close>; ties away from zero would give
  \<open>-0.13\<close>.
\<close>

theorem roundToMode_away_from_zero_counterexample:
  "js_mul (- 1 / 8) 100 = - 25 / 2 \<and>
   roundToMode (- 1 / 8) Checkbook = fl (- 12 / 100) \<and>
   spec_roundToMode (- 1 / 8) Checkbook = fl (- 13 / 100) \<and>
   roundToMode (- 1 / 8) Checkbook \<noteq> spec_roundToMode (- 1 / 8) Checkbook"
  by code_simp

subsection \<open>Digit entry and the error display\<close>

text \<open>
  The digit handler of the screen has the input-time guard: when there is no error and
  no operand is awaited, and the candidate display (the digit in place of a lone "0",
  else appended) parses to a value above 999999999.99 in magnitude, it returns the
  session state unchanged.
\<close>

lemma screen_digit_guard_rejects:
  "\<not> error s \<Longrightarrow> \<not> waitingForOperand s \<Longrightarrow>
   \<bar>getDisplayValue (if display s = ''0'' \<and> d \<noteq> ''.'' then d else display s @ d)\<bar> > MAX_VALUE \<Longrightarrow>
   handleNumberPress d s = s"
  by (simp add: handleNumberPress_def Let_def)

lemma nines_accumulating:
  "\<not> error nines" "\<not> waitingForOperand nines" "display nines \<noteq> ''0''"
  by (simp_all add: nines_def INITIAL_CALCULATOR_STATE_def)

lemma nines_candidate_too_large:
  "\<bar>getDisplayValue (display nines @ ''9'')\<bar> > MAX_VALUE"
  by code_simp

lemma screen_digit_guard_example: "handleNumberPress ''9'' nines = nines"
  using screen_digit_guard_rejects[of nines "''9''"] nines_accumulating nines_candidate_too_large
  by simp

text \<open>
  Claim C3. The claim is about both digit handlers, and the handler of the hook
  \<^verbatim>\<open>useCalculator\<close> breaks it. The display \<^verbatim>\<open>999999999\<close> is in the AccumulatingOperand
  mode (no error, no operand awaited) and is not a lone "0"; with the digit \<^verbatim>\<open>9\<close> the
  candidate \<^verbatim>\<open>9999999999\<close> parses to a value above 999999999.99; still the hook does not
  reject the keystroke: it changes the session state and shows the candidate.
\<close>

theorem hook_digit_press_not_rejected:
  "\<not> error nines \<and> \<not> waitingForOperand nines \<and>
   (if display nines = ''0'' \<and> ''9'' \<noteq> ''.'' then ''9'' else display nines @ ''9'') = ''9999999999'' \<and>
   \<bar>getDisplayValue ''9999999999''\<bar> > MAX_VALUE \<and>
   useCalculator_handleNumberPress ''9'' nines \<noteq> nines \<and>
   display (useCalculator_handleNumberPress ''9'' nines) = ''9999999999''"
proof -
  have 1: "display nines = ''999999999''"
    by (simp add: nines_def INITIAL_CALCULATOR_STATE_def)
  have 2: "\<bar>getDisplayValue ''9999999999''\<bar> > MAX_VALUE"
    using nines_candidate_too_large by (simp add: 1)
  have 3: "display (useCalculator_handleNumberPress ''9'' nines) = ''9999999999''"
    using nines_accumulating by (simp add: useCalculator_handleNumberPress_def 1)
  from 1 3 have 4: "useCalculator_handleNumberPress ''9'' nines \<noteq> nines" by auto
  from nines_accumulating 1 2 3 4 show ?thesis by simp
qed

text \<open>
  Claim C10. The two digit handlers differ: on the display \<^verbatim>\<open>999999999\<close> and the digit
  \<^verbatim>\<open>9\<close> the handler of the hook \<^verbatim>\<open>useCalculator\<close> appends the digit, the handler of the
  screen rejects it.
\<close>

theorem hook_digit_handler_lacks_guard:
  "useCalculator_handleNumberPress ''9'' nines = nines\<lparr> display := ''9999999999'' \<rparr> \<and>
   handleNumberPress ''9'' nines = nines \<and>
   useCalculator_handleNumberPress ''9'' nines \<noteq> handleNumberPress ''9'' nines"
proof -
  have 1: "useCalculator_handleNumberPress ''9'' nines = nines\<lparr> display := ''9999999999'' \<rparr>"
    by (simp add: useCalculator_handleNumberPress_def nines_def INITIAL_CALCULATOR_STATE_def)
  have 2: "handleNumberPress ''9'' nines = nines" by code_simp
  have "nines\<lparr> display := ''9999999999'' \<rparr> \<noteq> nines"
    by (simp add: nines_def INITIAL_CALCULATOR_STATE_def)
  with 1 2 show ?thesis by simp
qed

lemma step_error_display:
  assumes "error s \<longrightarrow> display s = ''0''"
  shows "error (step mode e s) \<longrightarrow> display (step mode e s) = ''0''"
proof (cases e)
  case (NumberPress d)
  with assms show ?thesis
    by (simp add: handleNumberPress_def Let_def INITIAL_CALCULATOR_STATE_def)
next
  case DecimalPress
  with assms show ?thesis by (simp add: handleDecimal_def INITIAL_CALCULATOR_STATE_def)
next
  case NegativeToggle
  with assms show ?thesis by (simp add: handleNegative_def Let_def)
next
  case (OperatorPress op)
  with assms show ?thesis by (simp add: handleOperatorPress_def Let_def)
next
  case EqualsPress
  with assms show ?thesis by (simp add: handleEquals_def Let_def)
next
  case BackspacePress
  with assms show ?thesis by (simp add: handleBackspace_def Let_def)
next
  case ClearPress
  then show ?thesis by (simp add: handleClear_def)
next
  case AllClearPress
  then show ?thesis by (simp add: handleAllClear_def INITIAL_CALCULATOR_STATE_def)
qed

text \<open>
  Claim C6. In every session state reachable from the initial state by digit, decimal,
  sign-toggle, operator, equals, backspace, clear and all-clear events (in any modes),
  an error flag implies that the display is exactly "0".
\<close>

theorem error_shows_zero:
  "reachable s \<Longrightarrow> error s \<Longrightarrow> display s = ''0''"
proof -
  assume r: "reachable s" and e: "error s"
  from r have "error s \<longrightarrow> display s = ''0''"
  proof (induction rule: reachable.induct)
    case initial
    show ?case by (simp add: INITIAL_CALCULATOR_STATE_def)
  next
    case (event s mode e)
    from event.IH show ?case by (rule step_error_display)
  qed
  with e show ?thesis by simp
qed

theorem error_shows_zero_witness:
  "reachable divideByZeroState \<and> error divideByZeroState \<and> display divideByZeroState = ''0''"
proof -
  have r: "reachable divideByZeroState"
    unfolding divideByZeroState_def by (intro reachable.intros)
  have e: "error divideByZeroState" by code_simp
  from error_shows_zero[OF r e] r e show ?thesis by simp
qed

section \<open>Properties of the undo/redo history\<close>

lemma pushStateUpdater_wf:
  "length (stack p) \<le> UNDO_REDO_STACK_SIZE \<Longrightarrow> wf_stack (pushStateUpdater x p)"
  by (auto simp: pushStateUpdater_def wf_stack_def Let_def UNDO_REDO_STACK_SIZE_def)

lemma pushState_wf: "wf_stack (undoRedo h) \<Longrightarrow> wf_stack (undoRedo (pushState x h))"
  using pushStateUpdater_wf[of "undoRedo h" x] by (simp add: pushState_def wf_stack_def)

lemma undo_wf:
  "wf_stack (undoRedo h) \<Longrightarrow> \<exists>h' cb. undo h = Inr (h', cb) \<and> wf_stack (undoRedo h')"
  by (auto simp: undo_def wf_stack_def Let_def stackAt_def)

lemma redo_wf: "wf_stack (undoRedo h) \<Longrightarrow> wf_stack (undoRedo (fst (redo h)))"
  by (auto simp: redo_def wf_stack_def Let_def)

lemma clear_wf: "wf_stack (undoRedo (clear s h))"
  by (simp add: clear_def wf_stack_def UNDO_REDO_STACK_SIZE_def)

lemma call_wf:
  assumes "wf_stack (undoRedo h)"
  shows "\<exists>h'. call c h = Inr h' \<and> wf_stack (undoRedo h')"
proof (cases c)
  case (PushState s)
  with assms show ?thesis by (simp add: pushState_wf)
next
  case Undo
  from undo_wf[OF assms] Undo show ?thesis by auto
next
  case Redo
  with assms show ?thesis by (simp add: redo_wf)
next
  case (Clear s)
  then show ?thesis by (simp add: clear_wf)
qed

lemma calls_wf:
  "wf_stack (undoRedo h) \<Longrightarrow> \<exists>h'. calls cs h = Inr h' \<and> wf_stack (undoRedo h')"
proof (induction cs arbitrary: h)
  case Nil
  then show ?case by simp
next
  case (Cons c cs)
  from call_wf[OF Cons.prems, of c] obtain h1 where
    h1: "call c h = Inr h1" "wf_stack (undoRedo h1)" by blast
  from Cons.IH[OF h1(2)] h1(1) show ?case by simp
qed

lemma useUndoRedo_wf: "wf_stack (undoRedo (useUndoRedo s0))"
  by (simp add: useUndoRedo_def wf_stack_def UNDO_REDO_STACK_SIZE_def)


lemma push_index:
  "wf_stack p \<Longrightarrow> currentIndex p = length (stack p) - 1 \<Longrightarrow>
   currentIndex (pushStateUpdater x p) = min (currentIndex p + 1) 19 \<and>
   currentIndex (pushStateUpdater x p) = length (stack (pushStateUpdater x p)) - 1"
  by (auto simp: pushStateUpdater_def wf_stack_def Let_def UNDO_REDO_STACK_SIZE_def)

lemma pushes_index:
  "wf_stack (undoRedo h) \<Longrightarrow> currentIndex (undoRedo h) = length (stack (undoRedo h)) - 1 \<Longrightarrow>
   calls (map PushState xs) h = Inr h' \<Longrightarrow>
   currentIndex (undoRedo h') = min (currentIndex (undoRedo h) + length xs) 19 \<and>
   currentIndex (undoRedo h') = length (stack (undoRedo h')) - 1"
proof (induction xs arbitrary: h)
  case Nil
  then show ?case by (auto simp: wf_stack_def UNDO_REDO_STACK_SIZE_def)
next
  case (Cons x xs)
  let ?h1 = "pushState x h"
  have 1: "wf_stack (undoRedo ?h1)" using Cons.prems(1) by (rule pushState_wf)
  have 2: "currentIndex (undoRedo ?h1) = min (currentIndex (undoRedo h) + 1) 19"
    and 3: "currentIndex (undoRedo ?h1) = length (stack (undoRedo ?h1)) - 1"
    using push_index[OF Cons.prems(1,2), of x] by (simp_all add: pushState_def)
  have "calls (map PushState xs) ?h1 = Inr h'" using Cons.prems(3) by simp
  from Cons.IH[OF 1 3 this] 2 show ?case by simp
qed

lemma countUndos_index:
  "currentIndex (undoRedo h) \<le> length (stack (undoRedo h)) \<Longrightarrow>
   countUndos h = currentIndex (undoRedo h)"
proof (induction "currentIndex (undoRedo h)" arbitrary: h)
  case 0
  then show ?case by (subst countUndos.simps) (simp add: canUndo_def)
next
  case (Suc n)
  then show ?case
    by (subst countUndos.simps) (auto simp: canUndo_def undo_def Let_def stackAt_def)
qed



lemma push_any:
  "currentIndex (pushStateUpdater x p) < length (stack (pushStateUpdater x p)) \<and>
   currentIndex (pushStateUpdater x p) \<le> 19"
  by (auto simp: pushStateUpdater_def Let_def UNDO_REDO_STACK_SIZE_def min_def)

lemma push_in_range:
  assumes "currentIndex p < length (stack p)" and "currentIndex p \<le> 19"
  shows "currentIndex (pushStateUpdater x p) = length (stack (pushStateUpdater x p)) - 1"
    and "length (stack (pushStateUpdater x p)) \<le> 20"
    and "1 \<le> currentIndex (pushStateUpdater x p)"
proof -
  have len: "length (take (currentIndex p + 1) (stack p)) = currentIndex p + 1"
    using assms(1) by simp
  show "currentIndex (pushStateUpdater x p) = length (stack (pushStateUpdater x p)) - 1"
    using assms(2) len by (simp add: pushStateUpdater_def Let_def UNDO_REDO_STACK_SIZE_def)
  show "length (stack (pushStateUpdater x p)) \<le> 20"
    using assms(2) len by (simp add: pushStateUpdater_def Let_def UNDO_REDO_STACK_SIZE_def)
  show "1 \<le> currentIndex (pushStateUpdater x p)"
    using len by (simp add: pushStateUpdater_def Let_def UNDO_REDO_STACK_SIZE_def)
qed

lemma push_no_evict:
  assumes "length (take (currentIndex p + 1) (stack p)) < UNDO_REDO_STACK_SIZE"
  shows "pushStateUpdater x p =
           \<lparr> stack = take (currentIndex p + 1) (stack p) @ [x],
             currentIndex = length (take (currentIndex p + 1) (stack p)) \<rparr>"
  using assms by (simp add: pushStateUpdater_def Let_def)

lemma push_evict:
  assumes "length (take (currentIndex p + 1) (stack p)) \<ge> UNDO_REDO_STACK_SIZE"
  shows "pushStateUpdater x p =
           \<lparr> stack = tl (take (currentIndex p + 1) (stack p) @ [x]), currentIndex = 19 \<rparr>"
  using assms by (simp add: pushStateUpdater_def Let_def UNDO_REDO_STACK_SIZE_def)

lemma undo_in_range:
  assumes "0 < currentIndex (undoRedo h)"
    and "currentIndex (undoRedo h) \<le> length (stack (undoRedo h))"
  shows "\<exists>h' s. undo h = Inr (h', Some s) \<and>
           stack (undoRedo h') = stack (undoRedo h) \<and>
           currentIndex (undoRedo h') = currentIndex (undoRedo h) - 1 \<and>
           s = stack (undoRedo h) ! (currentIndex (undoRedo h) - 1)"
  using assms by (simp add: undo_def Let_def stackAt_def)

lemma push_push_undo_push:
  "\<exists>h'. calls [PushState A, PushState B, Undo, PushState C] h = Inr h' \<and>
         \<not> canRedo h' \<and> canUndo h' \<and>
         undoRedo h' =
           \<lparr> stack = take (currentIndex (undoRedo (pushState B (pushState A h))))
                          (stack (undoRedo (pushState B (pushState A h)))) @ [C],
             currentIndex = currentIndex (undoRedo (pushState B (pushState A h))) \<rparr>"
proof -
  let ?p1 = "pushStateUpdater A (undoRedo h)"
  let ?h2 = "pushState B (pushState A h)"
  let ?p2 = "undoRedo ?h2"
  have p2: "?p2 = pushStateUpdater B ?p1" by (simp add: pushState_def)
  have 1: "currentIndex ?p1 < length (stack ?p1)" "currentIndex ?p1 \<le> 19"
    using push_any[of A "undoRedo h"] by simp_all
  note 2 = push_in_range[OF 1, of B, folded p2]
  have "0 < currentIndex ?p2" "currentIndex ?p2 \<le> length (stack ?p2)"
    using 2 by simp_all
  from undo_in_range[OF this] obtain h3 s where
    h3: "undo ?h2 = Inr (h3, Some s)" "stack (undoRedo h3) = stack ?p2"
      "currentIndex (undoRedo h3) = currentIndex ?p2 - 1" by blast
  have len: "length (take (currentIndex (undoRedo h3) + 1) (stack (undoRedo h3)))
               = currentIndex ?p2"
    using h3 2 by simp
  then have "length (take (currentIndex (undoRedo h3) + 1) (stack (undoRedo h3)))
               < UNDO_REDO_STACK_SIZE"
    using 2 by (simp add: UNDO_REDO_STACK_SIZE_def)
  note 4 = push_no_evict[OF this, of C]
  have "calls [PushState A, PushState B, Undo, PushState C] h = Inr (pushState C h3)"
    using h3(1) by simp
  moreover have "\<not> canRedo (pushState C h3)"
    using 4 by (simp add: canRedo_def pushState_def)
  moreover have "canUndo (pushState C h3)"
    using 4 len 2(3) by (simp add: canUndo_def pushState_def)
  moreover have "undoRedo (pushState C h3) =
           \<lparr> stack = take (currentIndex ?p2) (stack ?p2) @ [C], currentIndex = currentIndex ?p2 \<rparr>"
    using 4 len h3(2,3) 2(3) by (simp add: pushState_def)
  ultimately show ?thesis by blast
qed

lemma push_wf_stack:
  assumes "wf_stack p"
  shows "stack (pushStateUpdater x p) =
           (if currentIndex p = 19 then tl (take 20 (stack p) @ [x])
            else take (currentIndex p + 1) (stack p) @ [x])"
    and "currentIndex (pushStateUpdater x p) = min (currentIndex p + 1) 19"
proof -
  have len: "length (take (currentIndex p + 1) (stack p)) = currentIndex p + 1"
    and le: "currentIndex p \<le> 19"
    using assms by (simp_all add: wf_stack_def UNDO_REDO_STACK_SIZE_def)
  show "stack (pushStateUpdater x p) =
           (if currentIndex p = 19 then tl (take 20 (stack p) @ [x])
            else take (currentIndex p + 1) (stack p) @ [x])"
    using len le by (auto simp: pushStateUpdater_def Let_def UNDO_REDO_STACK_SIZE_def)
  show "currentIndex (pushStateUpdater x p) = min (currentIndex p + 1) 19"
    using len le by (auto simp: pushStateUpdater_def Let_def UNDO_REDO_STACK_SIZE_def)
qed

lemma push_top:
  assumes "wf_stack p"
  shows "stack (pushStateUpdater x p) ! currentIndex (pushStateUpdater x p) = x"
    and "last (stack (pushStateUpdater x p)) = x"
    and "currentIndex (pushStateUpdater x p) = length (stack (pushStateUpdater x p)) - 1"
proof -
  have i: "currentIndex p < length (stack p)" "currentIndex p \<le> 19"
    using assms by (simp_all add: wf_stack_def UNDO_REDO_STACK_SIZE_def)
  note al = push_in_range(1)[OF i, of x]
  have ne: "stack (pushStateUpdater x p) \<noteq> []"
    using push_any[of x p] by auto
  have "take 20 (stack p) \<noteq> []" using i by auto
  then have "tl (take 20 (stack p) @ [x]) = tl (take 20 (stack p)) @ [x]" by simp
  then show "last (stack (pushStateUpdater x p)) = x"
    by (simp add: push_wf_stack(1)[OF assms])
  then show "stack (pushStateUpdater x p) ! currentIndex (pushStateUpdater x p) = x"
    using al ne by (simp add: last_conv_nth)
  show "currentIndex (pushStateUpdater x p) = length (stack (pushStateUpdater x p)) - 1"
    by (rule al)
qed

lemma push_below_top:
  assumes "wf_stack p" and "currentIndex p = length (stack p) - 1"
  shows "stack (pushStateUpdater x p) ! (currentIndex (pushStateUpdater x p) - 1) = last (stack p)"
proof -
  have i: "currentIndex p < length (stack p)" "length (stack p) \<le> 20"
    using assms(1) by (simp_all add: wf_stack_def UNDO_REDO_STACK_SIZE_def)
  then have ne: "stack p \<noteq> []" by auto
  show ?thesis
  proof (cases "currentIndex p = 19")
    case True
    then have l: "length (stack p) = 20" using i assms(2) by simp
    have "stack (pushStateUpdater x p) = tl (stack p @ [x])"
      using True l by (simp add: push_wf_stack(1)[OF assms(1)])
    moreover have "currentIndex (pushStateUpdater x p) = 19"
      using True by (simp add: push_wf_stack(2)[OF assms(1)])
    ultimately show ?thesis
      using l ne by (simp add: nth_tl nth_append last_conv_nth)
  next
    case False
    then have "stack (pushStateUpdater x p) = stack p @ [x]"
      using i assms(2) by (simp add: push_wf_stack(1)[OF assms(1)])
    moreover have "currentIndex (pushStateUpdater x p) = length (stack p)"
      using False i assms(2) by (simp add: push_wf_stack(2)[OF assms(1)])
    ultimately show ?thesis
      using ne by (simp add: nth_append last_conv_nth)
  qed
qed


lemma push_push_below:
  fixes h :: UndoRedoHook and A B C :: CalculatorState
  assumes "wf_stack (undoRedo h)"
  defines "p2 \<equiv> undoRedo (pushState B (pushState A h))"
  shows "take (currentIndex p2) (stack p2) = butlast (stack p2)"
    and "last (stack p2) = B"
    and "stackAt (take (currentIndex p2) (stack p2) @ [C]) (currentIndex p2 - 1) = Some A"
proof -
  let ?p1 = "pushStateUpdater A (undoRedo h)"
  have p2: "p2 = pushStateUpdater B ?p1" by (simp add: p2_def pushState_def)
  have w1: "wf_stack ?p1"
    using assms(1) pushStateUpdater_wf[of "undoRedo h" A] by (simp add: wf_stack_def)
  note t1 = push_top[OF assms(1), of A]
  note t2 = push_top[OF w1, of B, folded p2]
  have i1: "currentIndex ?p1 < length (stack ?p1)" "currentIndex ?p1 \<le> 19"
    using push_any[of A "undoRedo h"] by simp_all
  have ge: "1 \<le> currentIndex p2" using push_in_range(3)[OF i1, of B] by (simp add: p2)
  have ne: "stack p2 \<noteq> []" using push_any[of B ?p1] by (auto simp: p2)
  show "take (currentIndex p2) (stack p2) = butlast (stack p2)"
    by (simp add: t2(3) butlast_conv_take)
  show "last (stack p2) = B" by (rule t2(2))
  have "stack p2 ! (currentIndex p2 - 1) = last (stack ?p1)"
    unfolding p2 by (rule push_below_top[OF w1 t1(3)])
  then have "stack p2 ! (currentIndex p2 - 1) = A" by (simp add: t1(2))
  then show "stackAt (take (currentIndex p2) (stack p2) @ [C]) (currentIndex p2 - 1) = Some A"
    using ge ne t2(3) by (simp add: stackAt_def nth_append)
qed

text \<open>
  Claim C4. From every manager state, \<^verbatim>\<open>pushState(A); pushState(B); undo(); pushState(C)\<close>
  runs without error and leaves \<^verbatim>\<open>canRedo()\<close> false and \<^verbatim>\<open>canUndo()\<close> true; on a
  well-formed manager the stack is then the stack after the two pushes with its last
  entry \<open>B\<close> replaced by \<open>C\<close>, and \<open>A\<close> lies just below the top. In general, when no
  eviction is due, \<^verbatim>\<open>pushState\<close> keeps positions \<open>0..currentIndex\<close>, appends the new
  state and sets \<open>currentIndex\<close> to the new last position.
\<close>

theorem pushState_discards_redo_branch:
  "(\<exists>h'. calls [PushState A, PushState B, Undo, PushState C] h = Inr h' \<and>
         \<not> canRedo h' \<and> canUndo h' \<and>
         (wf_stack (undoRedo h) \<longrightarrow>
            stack (undoRedo h') = butlast (stack (undoRedo (pushState B (pushState A h)))) @ [C] \<and>
            last (stack (undoRedo (pushState B (pushState A h)))) = B \<and>
            stackAt (stack (undoRedo h')) (currentIndex (undoRedo h') - 1) = Some A)) \<and>
   (length (take (currentIndex (undoRedo h) + 1) (stack (undoRedo h))) < UNDO_REDO_STACK_SIZE \<longrightarrow>
      stack (undoRedo (pushState x h)) =
        take (currentIndex (undoRedo h) + 1) (stack (undoRedo h)) @ [x] \<and>
      int (currentIndex (undoRedo (pushState x h))) =
        int (length (stack (undoRedo (pushState x h)))) - 1)"
proof (intro conjI impI)
  from push_push_undo_push[of A B C h] obtain h' where
    h': "calls [PushState A, PushState B, Undo, PushState C] h = Inr h'"
      "\<not> canRedo h'" "canUndo h'"
      "undoRedo h' =
         \<lparr> stack = take (currentIndex (undoRedo (pushState B (pushState A h))))
                        (stack (undoRedo (pushState B (pushState A h)))) @ [C],
           currentIndex = currentIndex (undoRedo (pushState B (pushState A h))) \<rparr>"
    by blast
  have "wf_stack (undoRedo h) \<longrightarrow>
            stack (undoRedo h') = butlast (stack (undoRedo (pushState B (pushState A h)))) @ [C] \<and>
            last (stack (undoRedo (pushState B (pushState A h)))) = B \<and>
            stackAt (stack (undoRedo h')) (currentIndex (undoRedo h') - 1) = Some A"
    using push_push_below(1,2)[where h=h and A=A and B=B]
      push_push_below(3)[where h=h and A=A and B=B and C=C] by (simp add: h'(4))
  with h'(1,2,3) show "\<exists>h'. calls [PushState A, PushState B, Undo, PushState C] h = Inr h' \<and>
         \<not> canRedo h' \<and> canUndo h' \<and>
         (wf_stack (undoRedo h) \<longrightarrow>
            stack (undoRedo h') = butlast (stack (undoRedo (pushState B (pushState A h)))) @ [C] \<and>
            last (stack (undoRedo (pushState B (pushState A h)))) = B \<and>
            stackAt (stack (undoRedo h')) (currentIndex (undoRedo h') - 1) = Some A)"
    by blast
next
  assume a: "length (take (currentIndex (undoRedo h) + 1) (stack (undoRedo h))) < UNDO_REDO_STACK_SIZE"
  show "stack (undoRedo (pushState x h)) =
        take (currentIndex (undoRedo h) + 1) (stack (undoRedo h)) @ [x]"
    by (simp add: pushState_def push_no_evict[OF a])
  show "int (currentIndex (undoRedo (pushState x h))) =
        int (length (stack (undoRedo (pushState x h)))) - 1"
    by (simp add: pushState_def push_no_evict[OF a])
qed

theorem pushState_discards_redo_branch_witness:
  "wf_stack (undoRedo (useUndoRedo INITIAL_STATE)) \<and>
   calls [PushState (INITIAL_STATE\<lparr> display := ''5'' \<rparr>), PushState (INITIAL_STATE\<lparr> display := ''50'' \<rparr>), Undo, PushState (INITIAL_STATE\<lparr> display := ''7'' \<rparr>)]
         (useUndoRedo INITIAL_STATE)
     = Inr \<lparr> undoRedo = \<lparr> stack = [INITIAL_STATE, INITIAL_STATE\<lparr> display := ''5'' \<rparr>, INITIAL_STATE\<lparr> display := ''7'' \<rparr>], currentIndex = 2 \<rparr>,
             feedback = Some \<lparr> message = UNDO_GLYPH # '' Undid last operation'', isUndo = True \<rparr> \<rparr> \<and>
   length (take (currentIndex (undoRedo (useUndoRedo INITIAL_STATE)) + 1)
             (stack (undoRedo (useUndoRedo INITIAL_STATE)))) < UNDO_REDO_STACK_SIZE \<and>
   stack (undoRedo (pushState (INITIAL_STATE\<lparr> display := ''5'' \<rparr>) (useUndoRedo INITIAL_STATE))) = [INITIAL_STATE, INITIAL_STATE\<lparr> display := ''5'' \<rparr>]"
  using pushState_discards_redo_branch[of "INITIAL_STATE\<lparr> display := ''5'' \<rparr>" "INITIAL_STATE\<lparr> display := ''50'' \<rparr>" "INITIAL_STATE\<lparr> display := ''7'' \<rparr>"
      "useUndoRedo INITIAL_STATE" "INITIAL_STATE\<lparr> display := ''5'' \<rparr>"]
  by (simp add: useUndoRedo_def wf_stack_def UNDO_REDO_STACK_SIZE_def pushState_def
      pushStateUpdater_def undo_def stackAt_def undoMessage_def INITIAL_STATE_def)


text \<open>
  Claim C5. Every sequence of \<^verbatim>\<open>pushState\<close>/\<^verbatim>\<open>undo\<close>/\<^verbatim>\<open>redo\<close>/\<^verbatim>\<open>clear\<close> calls on a
  fresh manager runs without error and ends with at most 20 entries and with
  \<open>currentIndex\<close> inside the stack. When a push would make the length exceed 20, entry
  0 is dropped and \<open>currentIndex\<close> is 19. After 25 pushes on a fresh manager the stack
  holds 20 entries and the loop \<^verbatim>\<open>while (canUndo()) undo()\<close> runs 19 times, so at most
  20 times.
\<close>

theorem undo_stack_bounded:
  "(\<exists>h. calls cs (useUndoRedo s0) = Inr h \<and>
        length (stack (undoRedo h)) \<le> 20 \<and>
        currentIndex (undoRedo h) < length (stack (undoRedo h))) \<and>
   (UNDO_REDO_STACK_SIZE \<le> length (take (currentIndex p + 1) (stack p)) \<longrightarrow>
      pushStateUpdater x p =
        \<lparr> stack = tl (take (currentIndex p + 1) (stack p) @ [x]), currentIndex = 19 \<rparr>) \<and>
   (length xs = 25 \<longrightarrow>
      (\<exists>h. calls (map PushState xs) (useUndoRedo s0) = Inr h \<and>
           length (stack (undoRedo h)) = 20 \<and> currentIndex (undoRedo h) = 19 \<and>
           countUndos h = 19 \<and> countUndos h \<le> 20))"
proof (intro conjI impI)
  from calls_wf[OF useUndoRedo_wf, of cs s0]
  show "\<exists>h. calls cs (useUndoRedo s0) = Inr h \<and>
        length (stack (undoRedo h)) \<le> 20 \<and>
        currentIndex (undoRedo h) < length (stack (undoRedo h))"
    by (auto simp: wf_stack_def UNDO_REDO_STACK_SIZE_def)
next
  assume "UNDO_REDO_STACK_SIZE \<le> length (take (currentIndex p + 1) (stack p))"
  then show "pushStateUpdater x p =
        \<lparr> stack = tl (take (currentIndex p + 1) (stack p) @ [x]), currentIndex = 19 \<rparr>"
    by (rule push_evict)
next
  assume len: "length xs = 25"
  from calls_wf[OF useUndoRedo_wf, of "map PushState xs" s0] obtain h where
    h: "calls (map PushState xs) (useUndoRedo s0) = Inr h" "wf_stack (undoRedo h)" by blast
  have top: "currentIndex (undoRedo (useUndoRedo s0))
               = length (stack (undoRedo (useUndoRedo s0))) - 1"
    by (simp add: useUndoRedo_def)
  from pushes_index[OF useUndoRedo_wf top h(1)] len
  have i: "currentIndex (undoRedo h) = 19"
    and al: "currentIndex (undoRedo h) = length (stack (undoRedo h)) - 1"
    by (simp_all add: useUndoRedo_def)
  have l: "length (stack (undoRedo h)) = 20"
    using i al h(2) by (simp add: wf_stack_def)
  have "countUndos h = 19"
    using countUndos_index[of h] i l by simp
  with h(1) i l show "\<exists>h. calls (map PushState xs) (useUndoRedo s0) = Inr h \<and>
           length (stack (undoRedo h)) = 20 \<and> currentIndex (undoRedo h) = 19 \<and>
           countUndos h = 19 \<and> countUndos h \<le> 20"
    by auto
qed

theorem undo_stack_bounded_witness:
  "UNDO_REDO_STACK_SIZE \<le> length (take (19 + 1) (replicate 20 INITIAL_STATE)) \<and>
   pushStateUpdater (INITIAL_STATE\<lparr> display := ''7'' \<rparr>) \<lparr> stack = replicate 20 INITIAL_STATE, currentIndex = 19 \<rparr> =
     \<lparr> stack = replicate 19 INITIAL_STATE @ [INITIAL_STATE\<lparr> display := ''7'' \<rparr>], currentIndex = 19 \<rparr> \<and>
   length (replicate 25 INITIAL_STATE) = 25 \<and>
   (\<exists>h. calls (map PushState (replicate 25 INITIAL_STATE)) (useUndoRedo INITIAL_STATE) = Inr h \<and>
        countUndos h \<le> 20)"
proof -
  have t: "tl (replicate 20 INITIAL_STATE) = replicate 19 INITIAL_STATE"
    by (simp add: numeral_eq_Suc)
  show ?thesis
    using undo_stack_bounded[of "[]" INITIAL_STATE
        "\<lparr> stack = replicate 20 INITIAL_STATE, currentIndex = 19 \<rparr>" "INITIAL_STATE\<lparr> display := ''7'' \<rparr>"
        "replicate 25 INITIAL_STATE"]
    by (auto simp: UNDO_REDO_STACK_SIZE_def t)
qed

section \<open>Properties of the screen: errors and the undo history\<close>


text \<open>
  Claim C8 as stated fails. After the keys 5, division, 0, equals the session is in the
  Error state; that state is not in the stack, which is the stack before the equals
  key; the first undo does not restore the error state, and the second undo does not
  restore the state before the failure.
\<close>

theorem error_state_pushed_counterexample:
  "error (calculatorState divideByZeroScreen) \<and>
   calculatorState divideByZeroScreen \<notin> set (stack (undoRedo (undoRedoHook divideByZeroScreen))) \<and>
   undoRedoHook divideByZeroScreen = undoRedoHook beforeEqualsScreen \<and>
   sessionOf (handleUndos 1 divideByZeroScreen) \<noteq> Inr (calculatorState divideByZeroScreen) \<and>
   sessionOf (handleUndos 2 divideByZeroScreen) \<noteq> Inr (calculatorState beforeEqualsScreen)"
  by code_simp

lemma pressKey_session:
  "calculatorState (pressKey e scr) = step (settingsMode scr) e (calculatorState scr)"
  by (simp add: pressKey_def trackState_def Let_def split: option.splits)

lemma pressKey_error_keeps_history:
  assumes "error (calculatorState (pressKey e scr))"
  shows "undoRedoHook (pressKey e scr) = undoRedoHook scr"
proof -
  from assms have "error (step (settingsMode scr) e (calculatorState scr))"
    by (simp add: pressKey_session)
  then show ?thesis
    by (simp add: pressKey_def trackState_def Let_def split: option.splits)
qed

lemma trackState_session: "calculatorState (trackState scr) = calculatorState scr"
  by (simp add: trackState_def Let_def split: option.splits)

lemma handleUndo_restores:
  assumes "canUndo (undoRedoHook scr)"
    and "currentIndex (undoRedo (undoRedoHook scr)) \<le> length (stack (undoRedo (undoRedoHook scr)))"
  shows "sessionOf (handleUndo scr) =
           Inr (stack (undoRedo (undoRedoHook scr)) ! (currentIndex (undoRedo (undoRedoHook scr)) - 1))"
proof -
  from assms(1) have "0 < currentIndex (undoRedo (undoRedoHook scr))"
    by (simp add: canUndo_def)
  from undo_in_range[OF this assms(2)] obtain h' s where
    "undo (undoRedoHook scr) = Inr (h', Some s)"
    "s = stack (undoRedo (undoRedoHook scr)) ! (currentIndex (undoRedo (undoRedoHook scr)) - 1)"
    by blast
  with assms(1) show ?thesis
    by (simp add: handleUndo_def sessionOf_def trackState_session)
qed

lemma push_set:
  "set (stack (pushStateUpdater x p)) \<subseteq> insert x (set (stack p))"
proof -
  have "set (tl (take (currentIndex p + 1) (stack p) @ [x]))
          \<subseteq> set (take (currentIndex p + 1) (stack p) @ [x])"
    by (cases "take (currentIndex p + 1) (stack p) @ [x]") auto
  moreover have "set (take (currentIndex p + 1) (stack p) @ [x]) \<subseteq> insert x (set (stack p))"
    using set_take_subset[of "currentIndex p + 1" "stack p"] by auto
  ultimately show ?thesis
    by (auto simp: pushStateUpdater_def Let_def)
qed

lemma pushState_recorded_ok:
  assumes "recorded_ok h" and "\<not> error c"
  shows "recorded_ok (pushState c h)"
proof -
  have "wf_stack (undoRedo (pushState c h))"
    using assms(1) by (simp add: recorded_ok_def pushState_wf)
  moreover have "\<forall>s \<in> set (stack (undoRedo (pushState c h))). \<not> error s"
    using push_set[of c "undoRedo h"] assms by (auto simp: recorded_ok_def pushState_def)
  ultimately show ?thesis by (simp add: recorded_ok_def)
qed

lemma trackState_recorded_ok:
  assumes "recorded_ok (undoRedoHook scr)"
  shows "recorded_ok (undoRedoHook (trackState scr))"
proof (cases "prevStateRef scr")
  case None
  with assms show ?thesis by (simp add: trackState_def)
next
  case (Some p)
  show ?thesis
  proof (cases "(display p \<noteq> display (calculatorState scr) \<or>
                 operation p \<noteq> operation (calculatorState scr) \<or>
                 previousValue p \<noteq> previousValue (calculatorState scr)) \<and>
                \<not> error (calculatorState scr)")
    case True
    then have "undoRedoHook (trackState scr) = pushState (calculatorState scr) (undoRedoHook scr)"
      using Some by (simp add: trackState_def Let_def)
    with pushState_recorded_ok[OF assms, of "calculatorState scr"] True show ?thesis by simp
  next
    case False
    then have "trackState scr = scr" using Some by (auto simp: trackState_def Let_def)
    with assms show ?thesis by simp
  qed
qed

lemma handleUndo_recorded_ok:
  assumes "recorded_ok (undoRedoHook scr)"
  shows "\<exists>scr'. handleUndo scr = Inr scr' \<and> recorded_ok (undoRedoHook scr') \<and>
           (canUndo (undoRedoHook scr) \<longrightarrow>
              \<not> error (calculatorState scr') \<and>
              calculatorState scr' =
                stack (undoRedo (undoRedoHook scr)) ! (currentIndex (undoRedo (undoRedoHook scr)) - 1))"
proof (cases "canUndo (undoRedoHook scr)")
  case False
  with assms show ?thesis by (simp add: handleUndo_def)
next
  case True
  let ?p = "undoRedo (undoRedoHook scr)"
  have wf: "wf_stack ?p" and ne: "\<forall>s \<in> set (stack ?p). \<not> error s"
    using assms by (simp_all add: recorded_ok_def)
  have i: "0 < currentIndex ?p" "currentIndex ?p \<le> length (stack ?p)"
    using True wf by (simp_all add: canUndo_def wf_stack_def)
  from undo_in_range[OF i] obtain h' s where
    u: "undo (undoRedoHook scr) = Inr (h', Some s)" "stack (undoRedo h') = stack ?p"
       "currentIndex (undoRedo h') = currentIndex ?p - 1"
       "s = stack ?p ! (currentIndex ?p - 1)" by blast
  let ?scr1 = "scr\<lparr> undoRedoHook := h', calculatorState := s \<rparr>"
  have wf': "currentIndex ?p < length (stack ?p)" "length (stack ?p) \<le> UNDO_REDO_STACK_SIZE"
    using wf by (simp_all add: wf_stack_def)
  have lt: "currentIndex ?p - 1 < length (stack ?p)" using wf'(1) by arith
  then have "s \<in> set (stack ?p)" unfolding u(4) by (rule nth_mem)
  with ne have s: "\<not> error s" by simp
  have "recorded_ok h'" using wf' lt ne u(2,3) by (simp add: recorded_ok_def wf_stack_def)
  then have "recorded_ok (undoRedoHook (trackState ?scr1))"
    by (intro trackState_recorded_ok) simp
  moreover have "handleUndo scr = Inr (trackState ?scr1)"
    using True u(1) by (simp add: handleUndo_def)
  moreover have "calculatorState (trackState ?scr1) = s" by (simp add: trackState_session)
  ultimately show ?thesis using s u(4) by simp
qed

lemma handleRedo_recorded_ok:
  assumes "recorded_ok (undoRedoHook scr)"
  shows "recorded_ok (undoRedoHook (handleRedo scr))"
proof (cases "canRedo (undoRedoHook scr)")
  case False
  with assms show ?thesis by (simp add: handleRedo_def)
next
  case True
  let ?p = "undoRedo (undoRedoHook scr)"
  have wf: "wf_stack ?p" and ne: "\<forall>s \<in> set (stack ?p). \<not> error s"
    using assms by (simp_all add: recorded_ok_def)
  have i: "currentIndex ?p + 1 < length (stack ?p)" using True by (simp add: canRedo_def)
  obtain h' r where r: "redo (undoRedoHook scr) = (h', r)" by (cases "redo (undoRedoHook scr)")
  have h': "stack (undoRedo h') = stack ?p" "currentIndex (undoRedo h') = currentIndex ?p + 1"
    using r i by (auto simp: redo_def Let_def)
  have "recorded_ok h'" using wf ne h' i by (simp add: recorded_ok_def wf_stack_def)
  then have "recorded_ok (undoRedoHook (trackState (scr\<lparr> undoRedoHook := h',
      calculatorState := (case r of None \<Rightarrow> calculatorState scr | Some s \<Rightarrow> s) \<rparr>)))"
    by (intro trackState_recorded_ok) simp
  then show ?thesis using True r by (simp add: handleRedo_def)
qed

lemma reachable_recorded_ok:
  "reachableScreen scr \<Longrightarrow> recorded_ok (undoRedoHook scr)"
proof (induction rule: reachableScreen.induct)
  case mounted
  show ?case
    by (simp add: initialScreen_def trackState_def useUndoRedo_def recorded_ok_def wf_stack_def
        UNDO_REDO_STACK_SIZE_def INITIAL_CALCULATOR_STATE_def)
next
  case (key scr e)
  from key.IH show ?case unfolding pressKey_def by (intro trackState_recorded_ok) simp
next
  case (undone scr scr')
  with handleUndo_recorded_ok[OF undone.IH] show ?case by auto
next
  case (redone scr)
  from redone.IH show ?case by (rule handleRedo_recorded_ok)
next
  case (mode scr m)
  then show ?case by (simp add: setMode_def)
qed

text \<open>
  Claim C8, as amended. An event that leaves the session in the Error state does not
  touch the undo history: the effect skips states whose error flag is set, so the
  error state is not pushed, and no snapshot of a reachable screen is an error state.
  On a reachable screen that can undo, the undo key runs without error and restores
  the snapshot one position below the current index, which is not an error state.
\<close>

theorem error_state_not_recorded:
  "(error (calculatorState (pressKey e scr)) \<longrightarrow>
      undoRedoHook (pressKey e scr) = undoRedoHook scr) \<and>
   (reachableScreen scr \<longrightarrow>
      (\<forall>s \<in> set (stack (undoRedo (undoRedoHook scr))). \<not> error s)) \<and>
   (reachableScreen scr \<and> canUndo (undoRedoHook scr) \<longrightarrow>
      (\<exists>scr'. handleUndo scr = Inr scr' \<and> \<not> error (calculatorState scr') \<and>
         calculatorState scr' =
           stack (undoRedo (undoRedoHook scr)) ! (currentIndex (undoRedo (undoRedoHook scr)) - 1)))"
proof (intro conjI impI)
  assume "error (calculatorState (pressKey e scr))"
  then show "undoRedoHook (pressKey e scr) = undoRedoHook scr"
    by (rule pressKey_error_keeps_history)
next
  assume "reachableScreen scr"
  then show "\<forall>s \<in> set (stack (undoRedo (undoRedoHook scr))). \<not> error s"
    using reachable_recorded_ok[of scr] by (simp add: recorded_ok_def)
next
  assume "reachableScreen scr \<and> canUndo (undoRedoHook scr)"
  then show "\<exists>scr'. handleUndo scr = Inr scr' \<and> \<not> error (calculatorState scr') \<and>
         calculatorState scr' =
           stack (undoRedo (undoRedoHook scr)) ! (currentIndex (undoRedo (undoRedoHook scr)) - 1)"
    using handleUndo_recorded_ok[OF reachable_recorded_ok, of scr] by blast
qed

theorem error_state_not_recorded_witness:
  "error (calculatorState (pressKey EqualsPress beforeEqualsScreen)) \<and>
   undoRedoHook (pressKey EqualsPress beforeEqualsScreen) = undoRedoHook beforeEqualsScreen \<and>
   reachableScreen divideByZeroScreen \<and>
   canUndo (undoRedoHook divideByZeroScreen) \<and>
   (\<exists>scr'. handleUndo divideByZeroScreen = Inr scr' \<and> \<not> error (calculatorState scr'))"
proof -
  have 1: "error (calculatorState (pressKey EqualsPress beforeEqualsScreen))" by code_simp
  have 2: "reachableScreen divideByZeroScreen"
    unfolding divideByZeroScreen_def beforeEqualsScreen_def
    by (intro reachableScreen.key reachableScreen.mounted)
  have 3: "canUndo (undoRedoHook divideByZeroScreen)" by code_simp
  from error_state_not_recorded[of EqualsPress beforeEqualsScreen]
    error_state_not_recorded[of EqualsPress divideByZeroScreen] 1 2 3
  show ?thesis by blast
qed

end
